theory Spec2Isabelle
  imports Main "HOL-Library.Sublist"
begin

section \<open>Strings of the host language\<close>

text \<open>
  A string of the program is a list of code units. The development uses the code
  units below 256, so that a string is a \<open>char list\<close>; the white space class
  \<open>\s\<close> of the regular expressions is restricted to that range accordingly.
  The library functions of the host language (\<open>indexOf\<close>, \<open>replaceAll\<close>,
  \<open>split\<close>, \<open>trim\<close>, the regular expression matcher) are not part of the
  repository; they are written out here as the language standard defines them, for
  the arguments the repository passes.
\<close>

abbreviation LF :: char where "LF \<equiv> CHR 0x0A"
abbreviation CR :: char where "CR \<equiv> CHR 0x0D"
abbreviation TAB :: char where "TAB \<equiv> CHR 0x09"
abbreviation SPC :: char where "SPC \<equiv> CHR 0x20"
abbreviation DOLLAR :: char where "DOLLAR \<equiv> CHR 0x24"

text \<open>The class \<open>\s\<close> (also the characters \<open>trim\<close> strips): tab, line feed,
  vertical tab, form feed, carriage return, space and the no-break space.\<close>

definition is_space :: "char \<Rightarrow> bool" where
  "is_space c = (c = TAB \<or> c = LF \<or> c = CHR 0x0B \<or> c = CHR 0x0C \<or> c = CR \<or> c = SPC \<or> c = CHR 0xA0)"

text \<open>The class \<open>[\t ]\<close>.\<close>

definition is_horiz :: "char \<Rightarrow> bool" where
  "is_horiz c = (c = TAB \<or> c = SPC)"

text \<open>\<open>String.prototype.indexOf(sub)\<close>: the first position at which \<open>sub\<close>
  occurs, \<open>None\<close> for the result \<open>-1\<close>.\<close>

fun indexOf :: "string \<Rightarrow> string \<Rightarrow> nat option" where
  "indexOf [] sub = (if sub = [] then Some 0 else None)"
| "indexOf (c # cs) sub =
     (if prefix sub (c # cs) then Some 0 else map_option Suc (indexOf cs sub))"

text \<open>\<open>indexOf(sub, from)\<close>: the search starts at \<open>from\<close>, clamped to the length.\<close>

definition indexOfFrom :: "string \<Rightarrow> string \<Rightarrow> nat \<Rightarrow> nat option" where
  "indexOfFrom s sub from =
     map_option (\<lambda>i. i + min from (length s)) (indexOf (drop from s) sub)"

definition includes_str :: "string \<Rightarrow> string \<Rightarrow> bool" where
  "includes_str s sub = (indexOf s sub \<noteq> None)"

text \<open>\<open>s.substring(a, b)\<close>: both ends are clamped to the length and swapped when
  \<open>a > b\<close>.\<close>

definition substring :: "string \<Rightarrow> nat \<Rightarrow> nat \<Rightarrow> string" where
  "substring s a b =
     (let a' = min a (length s); b' = min b (length s)
      in take (max a' b' - min a' b') (drop (min a' b') s))"

text \<open>\<open>s.trim()\<close>.\<close>

definition trim :: "string \<Rightarrow> string" where
  "trim s = rev (dropWhile is_space (rev (dropWhile is_space s)))"

text \<open>\<open>s.split("\n")\<close> and \<open>lines.join("\n")\<close>.\<close>

fun splitOn :: "char \<Rightarrow> string \<Rightarrow> string \<Rightarrow> string list" where
  "splitOn d cur [] = [cur]"
| "splitOn d cur (c # cs) =
     (if c = d then cur # splitOn d [] cs else splitOn d (cur @ [c]) cs)"

definition splitLines :: "string \<Rightarrow> string list" where
  "splitLines s = splitOn LF [] s"

fun joinLines :: "string list \<Rightarrow> string" where
  "joinLines [] = []"
| "joinLines [l] = l"
| "joinLines (l # m # ls) = l @ LF # joinLines (m # ls)"

text \<open>\<open>xs.slice(a, b)\<close> for \<open>0 \<le> a\<close> and \<open>0 \<le> b\<close>.\<close>

definition slice :: "'a list \<Rightarrow> nat \<Rightarrow> nat \<Rightarrow> 'a list" where
  "slice xs a b = take (b - a) (drop a xs)"

subsection \<open>Replacing a literal search string\<close>

text \<open>The abstract operation \<open>StringIndexOf(s, search, from)\<close> of the standard: unlike
  the method \<open>indexOf\<close> it finds nothing when \<open>from\<close> is beyond the end.\<close>

definition stringIndexOf :: "string \<Rightarrow> string \<Rightarrow> nat \<Rightarrow> nat option" where
  "stringIndexOf s search from =
     (if length s < from then None
      else map_option (\<lambda>i. i + from) (indexOf (drop from s) search))"

lemma indexOf_bounds:
  "indexOf s sub = Some i \<Longrightarrow> prefix sub (drop i s) \<and> i + length sub \<le> length s"
proof (induction s arbitrary: i)
  case Nil
  then show ?case by (simp split: if_splits)
next
  case (Cons c cs)
  show ?case
  proof (cases "prefix sub (c # cs)")
    case True
    with Cons.prems have "i = 0" by simp
    with True prefix_length_le[OF True] show ?thesis by simp
  next
    case False
    with Cons.prems obtain j where j: "indexOf cs sub = Some j" "i = Suc j" by auto
    from Cons.IH[OF j(1)] j(2) show ?thesis by simp
  qed
qed

lemma stringIndexOf_bounds:
  "stringIndexOf s search from = Some p \<Longrightarrow>
     from \<le> p \<and> p + length search \<le> length s \<and> from \<le> length s"
  by (auto simp: stringIndexOf_def split: if_splits dest!: indexOf_bounds)

lemma indexOfFrom_bounds:
  "indexOfFrom s sub from = Some p \<Longrightarrow> min from (length s) \<le> p \<and> p + length sub \<le> length s"
  by (auto simp: indexOfFrom_def dest!: indexOf_bounds)

text \<open>The match positions \<open>replaceAll\<close> collects: after a match at \<open>p\<close> the search
  resumes at \<open>p + max(1, searchLength)\<close>.\<close>

function matchPositions :: "string \<Rightarrow> string \<Rightarrow> nat \<Rightarrow> nat list" where
  "matchPositions s search from =
     (case stringIndexOf s search from of
        None \<Rightarrow> []
      | Some p \<Rightarrow> p # matchPositions s search (p + max 1 (length search)))"
  by pat_completeness auto
termination
proof (relation "measure (\<lambda>(s, search, from). Suc (length s) - from)")
  show "wf (measure (\<lambda>(s, search, from). Suc (length s) - from))" by simp
next
  fix s search :: string and "from" p :: nat
  assume "stringIndexOf s search from = Some p"
  from stringIndexOf_bounds[OF this]
  show "((s, search, p + max 1 (length search)), (s, search, from))
          \<in> measure (\<lambda>(s, search, from). Suc (length s) - from)"
    by (auto simp: max_def)
qed

declare matchPositions.simps [simp del]

text \<open>\<open>GetSubstitution\<close> for a string pattern: there are no capture groups, so
  \<open>$$\<close>, \<open>$`\<close>, \<open>$&\<close> and \<open>$'\<close> are the only references that are expanded; a
  \<open>$\<close> before a digit, before \<open><\<close> or before any other character is copied.\<close>

fun getSubstitution :: "string \<Rightarrow> string \<Rightarrow> nat \<Rightarrow> string \<Rightarrow> string" where
  "getSubstitution matched str position [] = []"
| "getSubstitution matched str position [c] = [c]"
| "getSubstitution matched str position (c # d # r) =
     (if c = DOLLAR \<and> d = DOLLAR then DOLLAR # getSubstitution matched str position r
      else if c = DOLLAR \<and> d = CHR 0x60 then
        take position str @ getSubstitution matched str position r
      else if c = DOLLAR \<and> d = CHR 0x26 then
        matched @ getSubstitution matched str position r
      else if c = DOLLAR \<and> d = CHR 0x27 then
        drop (min (position + length matched) (length str)) str
          @ getSubstitution matched str position r
      else c # getSubstitution matched str position (d # r))"

fun replaceAt :: "string \<Rightarrow> string \<Rightarrow> string \<Rightarrow> nat list \<Rightarrow> nat \<Rightarrow> string" where
  "replaceAt s search replaceValue [] endOfLastMatch = drop endOfLastMatch s"
| "replaceAt s search replaceValue (p # ps) endOfLastMatch =
     substring s endOfLastMatch p @ getSubstitution search s p replaceValue
       @ replaceAt s search replaceValue ps (p + length search)"

text \<open>\<open>s.replaceAll(search, replaceValue)\<close> with a string \<open>search\<close> and a string
  \<open>replaceValue\<close>.\<close>

definition replaceAll :: "string \<Rightarrow> string \<Rightarrow> string \<Rightarrow> string" where
  "replaceAll s search replaceValue =
     replaceAt s search replaceValue (matchPositions s search 0) 0"

subsection \<open>The regular expressions the tools build\<close>

text \<open>
  The tools assemble the source text of a pattern from three kinds of pieces and compile
  it: \<open>escapeRegExp(part)\<close>, which puts a backslash before each of
  \<open>. * + ? ^ $ { } ( ) | [ ] \\<close> and so matches \<open>part\<close> literally; \<open>\s+\<close>; and
  \<open>[\t ]+\<close>. A pattern is represented by the sequence of its pieces; the pattern
  \<open>(?!)\<close>, which matches nowhere, is \<open>Never\<close>.
\<close>

datatype seg = Lit string | WsAny | WsHoriz

datatype regex = Never | Pattern "seg list"

text \<open>The backtracking matcher. \<open>greedy cont s k\<close> is the quantifier \<open>+\<close>: it takes
  \<open>k\<close> characters of the class, then \<open>k - 1\<close>, down to one, until the rest of the pattern
  (\<open>cont\<close>) matches. \<open>matchSegs gs s\<close> is the length of the match of \<open>gs\<close> at the start
  of \<open>s\<close>.\<close>

fun greedy :: "(string \<Rightarrow> nat option) \<Rightarrow> string \<Rightarrow> nat \<Rightarrow> nat option" where
  "greedy cont s 0 = None"
| "greedy cont s (Suc k) =
     (case cont (drop (Suc k) s) of
        Some n \<Rightarrow> Some (Suc k + n)
      | None \<Rightarrow> greedy cont s k)"

primrec matchSegs :: "seg list \<Rightarrow> string \<Rightarrow> nat option" where
  "matchSegs [] = (\<lambda>s. Some 0)"
| "matchSegs (g # gs) = (\<lambda>s.
     case g of
       Lit l \<Rightarrow>
         (if prefix l s
          then map_option (\<lambda>n. length l + n) (matchSegs gs (drop (length l) s))
          else None)
     | WsAny \<Rightarrow> greedy (matchSegs gs) s (length (takeWhile is_space s))
     | WsHoriz \<Rightarrow> greedy (matchSegs gs) s (length (takeWhile is_horiz s)))"

text \<open>\<open>regex.exec(s)\<close> from the start of \<open>s\<close>: the leftmost match, as (index, length).\<close>

fun execSegs :: "seg list \<Rightarrow> string \<Rightarrow> (nat \<times> nat) option" where
  "execSegs gs [] = map_option (\<lambda>n. (0, n)) (matchSegs gs [])"
| "execSegs gs (c # cs) =
     (case matchSegs gs (c # cs) of
        Some n \<Rightarrow> Some (0, n)
      | None \<Rightarrow> map_option (\<lambda>(i, n). (Suc i, n)) (execSegs gs cs))"

definition regexExec :: "regex \<Rightarrow> string \<Rightarrow> (nat \<times> nat) option" where
  "regexExec re s = (case re of Never \<Rightarrow> None | Pattern gs \<Rightarrow> execSegs gs s)"

text \<open>The matches of a global pattern (\<open>matchAll\<close>, \<open>replace\<close>): after a match the
  search resumes at its end, one further when the match is empty.\<close>

function allMatches :: "regex \<Rightarrow> string \<Rightarrow> nat \<Rightarrow> (nat \<times> nat) list" where
  "allMatches re s from =
     (if length s < from then []
      else case regexExec re (drop from s) of
        None \<Rightarrow> []
      | Some (i, n) \<Rightarrow> (from + i, n) # allMatches re s (from + i + max 1 n))"
  by pat_completeness auto
termination
  by (relation "measure (\<lambda>(re, s, from). Suc (length s) - from)") (auto simp: max_def)

declare allMatches.simps [simp del]

definition countRegexMatches :: "string \<Rightarrow> regex \<Rightarrow> nat" where
  "countRegexMatches content re = length (allMatches re content 0)"

text \<open>\<open>content.replace(re, () => newLF)\<close> with a global pattern: the replacement is
  the value of a function, so it is copied as it is.\<close>

fun spliceMatches :: "string \<Rightarrow> (nat \<times> nat) list \<Rightarrow> nat \<Rightarrow> string \<Rightarrow> string" where
  "spliceMatches s [] nextSourcePosition newLF = drop nextSourcePosition s"
| "spliceMatches s ((p, n) # ms) nextSourcePosition newLF =
     (if nextSourcePosition \<le> p
      then substring s nextSourcePosition p @ newLF @ spliceMatches s ms (p + n) newLF
      else spliceMatches s ms nextSourcePosition newLF)"

definition regexReplaceFn :: "string \<Rightarrow> regex \<Rightarrow> string \<Rightarrow> string" where
  "regexReplaceFn content re newLF = spliceMatches content (allMatches re content 0) 0 newLF"

lemma length_dropWhile_less_Suc [termination_simp]:
  "length (dropWhile P xs) < Suc (length xs)"
  by (simp add: length_dropWhile_le le_imp_less_Suc)

text \<open>\<open>s.match(/(\s+|\S+)/g) ?? []\<close>: the maximal runs of white space and of other
  characters, in order.\<close>

fun matchRuns :: "string \<Rightarrow> string list" where
  "matchRuns [] = []"
| "matchRuns (c # cs) =
     (if is_space c
      then (c # takeWhile is_space cs) # matchRuns (dropWhile is_space cs)
      else (c # takeWhile (\<lambda>x. \<not> is_space x) cs) # matchRuns (dropWhile (\<lambda>x. \<not> is_space x) cs))"

text \<open>\<open>s.split(/\s+/)\<close>: the pieces between the white space runs; a run at either end
  leaves an empty piece there, and the empty string gives one empty piece.\<close>

fun splitWs :: "string \<Rightarrow> string \<Rightarrow> string list" where
  "splitWs cur [] = [cur]"
| "splitWs cur (c # cs) =
     (if is_space c then cur # splitWs [] (dropWhile is_space cs)
      else splitWs (cur @ [c]) cs)"

section \<open>Line-ending codec\<close>

datatype LineEnding = CRLF | LFonly

definition detectLineEnding :: "string \<Rightarrow> LineEnding" where
  "detectLineEnding content = (if includes_str content [CR, LF] then CRLF else LFonly)"

text \<open>\<open>content.replace(/\r\n/g, "\n")\<close>: a left-to-right scan that replaces each
  pair CR LF it meets and resumes after the pair.\<close>

fun normalizeToLF :: "string \<Rightarrow> string" where
  "normalizeToLF [] = []"
| "normalizeToLF [c] = [c]"
| "normalizeToLF (c # d # r) =
     (if c = CR \<and> d = LF then LF # normalizeToLF r else c # normalizeToLF (d # r))"

text \<open>\<open>contentLF.replace(/\n/g, "\r\n")\<close> unless the line ending is LF.\<close>

fun restoreLineEnding :: "string \<Rightarrow> LineEnding \<Rightarrow> string" where
  "restoreLineEnding contentLF LFonly = contentLF"
| "restoreLineEnding contentLF CRLF =
     concat (map (\<lambda>c. if c = LF then [CR, LF] else [c]) contentLF)"

text \<open>The two shapes of content the round trip of the codec is stated for: no CR
  outside a pair CR LF, and no LF outside a pair CR LF.\<close>

fun lone_cr_free :: "string \<Rightarrow> bool" where
  "lone_cr_free [] = True"
| "lone_cr_free [c] = (c \<noteq> CR)"
| "lone_cr_free (c # d # r) =
     (if c = CR \<and> d = LF then lone_cr_free r else c \<noteq> CR \<and> lone_cr_free (d # r))"

fun bare_lf_free :: "string \<Rightarrow> bool" where
  "bare_lf_free [] = True"
| "bare_lf_free [c] = (c \<noteq> LF)"
| "bare_lf_free (c # d # r) =
     (if c = CR \<and> d = LF then bare_lf_free r else c \<noteq> LF \<and> bare_lf_free (d # r))"

section \<open>The single-edit tool: matching helpers\<close>

text \<open>\<open>countOccurrences\<close>. The loop keeps the position of the last occurrence found
  (\<open>None\<close> for \<open>-1\<close>) and the count. The function returns 0 for the empty string before
  the loop is entered; the loop carries the same test, without which it would not end.\<close>

function countLoop :: "string \<Rightarrow> string \<Rightarrow> nat option \<Rightarrow> nat \<Rightarrow> nat" where
  "countLoop str substr pos count =
     (case pos of
        None \<Rightarrow> count
      | Some p \<Rightarrow>
          if substr = [] then count
          else countLoop str substr (indexOfFrom str substr (p + length substr)) (count + 1))"
  by pat_completeness auto
termination
proof (relation "measure (\<lambda>(str, substr, pos, count).
          case pos of None \<Rightarrow> 0 | Some p \<Rightarrow> Suc (length str - p))", goal_cases)
  case 1
  show ?case by simp
next
  case (2 str substr pos count p)
  show ?case
  proof (cases "indexOfFrom str substr (p + length substr)")
    case None
    with 2 show ?thesis by simp
  next
    case (Some q)
    from indexOfFrom_bounds[OF Some] 2 have "p < q \<and> q < length str"
      by (cases substr) (auto simp: min_def split: if_splits)
    then have "length str - q < length str - p" by arith
    with Some 2 show ?thesis by simp
  qed
qed

declare countLoop.simps [simp del]

definition countOccurrences :: "string \<Rightarrow> string \<Rightarrow> nat" where
  "countOccurrences str substr =
     (if substr = [] then 0 else countLoop str substr (indexOf str substr) 0)"

text \<open>The pattern piece of one run of \<open>buildWhitespaceTolerantRegex\<close>: a run of white
  space (\<open>/^\s+$/\<close>) becomes \<open>\s+\<close> when it holds a line feed and \<open>[\t ]+\<close>
  otherwise; any other run is escaped.\<close>

definition segOfPart :: "string \<Rightarrow> seg" where
  "segOfPart part =
     (if part \<noteq> [] \<and> list_all is_space part
      then (if includes_str part [LF] then WsAny else WsHoriz)
      else Lit part)"

definition buildWhitespaceTolerantRegex :: "string \<Rightarrow> regex" where
  "buildWhitespaceTolerantRegex oldLF =
     (if oldLF = [] then Never else Pattern (map segOfPart (matchRuns oldLF)))"

text \<open>\<open>tokens.map(escapeRegExp).join("\\s+")\<close>.\<close>

fun joinTokens :: "string list \<Rightarrow> seg list" where
  "joinTokens [] = []"
| "joinTokens [t] = [Lit t]"
| "joinTokens (t # u # ts) = Lit t # WsAny # joinTokens (u # ts)"

definition buildTokenRegex :: "string \<Rightarrow> regex" where
  "buildTokenRegex oldLF =
     (let tokens = filter (\<lambda>t. t \<noteq> []) (splitWs [] oldLF)
      in if length tokens = 0 then Never else Pattern (joinTokens tokens))"

definition safeLiteralReplace :: "string \<Rightarrow> string \<Rightarrow> string \<Rightarrow> string" where
  "safeLiteralReplace str oldString newString =
     (if oldString = [] \<or> \<not> includes_str str oldString then str
      else if \<not> includes_str newString [DOLLAR] then replaceAll str oldString newString
      else let escapedNewString = replaceAll newString [DOLLAR] [DOLLAR, DOLLAR, DOLLAR, DOLLAR]
           in replaceAll str oldString escapedNewString)"

section \<open>Reference functions for the single-edit claims\<close>

text \<open>Literal replacement as the specification words it: scanning from the left, each
  occurrence of \<open>old\<close> is replaced by \<open>new\<close>, copied as it is, and the scan resumes
  after the occurrence. \<open>countLiteral\<close> counts the occurrences replaced.\<close>

fun literalReplaceAll :: "string \<Rightarrow> string \<Rightarrow> string \<Rightarrow> string" where
  "literalReplaceAll [] old new = []"
| "literalReplaceAll (c # cs) old new =
     (if old \<noteq> [] \<and> prefix old (c # cs)
      then new @ literalReplaceAll (drop (length old) (c # cs)) old new
      else c # literalReplaceAll cs old new)"

fun countLiteral :: "string \<Rightarrow> string \<Rightarrow> nat" where
  "countLiteral [] old = 0"
| "countLiteral (c # cs) old =
     (if old \<noteq> [] \<and> prefix old (c # cs)
      then Suc (countLiteral (drop (length old) (c # cs)) old)
      else countLiteral cs old)"

section \<open>The single-edit tool\<close>

text \<open>
  The tool reaches the file system through four operations (\<open>access\<close>, \<open>readFile\<close>,
  \<open>writeFile\<close>, \<open>mkdir\<close>). They are modelled on a file system that maps an absolute
  path to the content of the file there and keeps the trace of the operations performed,
  the oldest first; \<open>access\<close> succeeds for the paths that hold a file. Path resolution
  (\<open>resolveToCwd\<close>, with the working directory of the tool) and \<open>dirname\<close> belong to
  the host platform and are parameters.
\<close>

datatype io_event =
    Access string
  | ReadFile string
  | WriteFile string string
  | Mkdir string

record FileSystem =
  files :: "string \<rightharpoonup> string"
  trace :: "io_event list"

record Env =
  resolveToCwd :: "string \<Rightarrow> string"
  dirname :: "string \<Rightarrow> string"

definition access :: "FileSystem \<Rightarrow> string \<Rightarrow> bool \<times> FileSystem" where
  "access fs p = (files fs p \<noteq> None, fs\<lparr>trace := trace fs @ [Access p]\<rparr>)"

definition readFile :: "FileSystem \<Rightarrow> string \<Rightarrow> string option \<times> FileSystem" where
  "readFile fs p = (files fs p, fs\<lparr>trace := trace fs @ [ReadFile p]\<rparr>)"

definition writeFile :: "FileSystem \<Rightarrow> string \<Rightarrow> string \<Rightarrow> FileSystem" where
  "writeFile fs p content =
     fs\<lparr>files := (files fs)(p \<mapsto> content), trace := trace fs @ [WriteFile p content]\<rparr>"

definition mkdir :: "FileSystem \<Rightarrow> string \<Rightarrow> FileSystem" where
  "mkdir fs d = fs\<lparr>trace := trace fs @ [Mkdir d]\<rparr>"

text \<open>The cancellation signal is read at three points of a call; \<open>aborted k\<close> is what
  the \<open>k\<close>-th reading finds (0: on entry, 1: after the existence check, 2: after the
  file was read).\<close>

type_synonym signal = "nat \<Rightarrow> bool"

text \<open>The arguments of a call. \<open>expected_replacements\<close> is optional and is a number
  of the schema, taken here as an integer.\<close>

record CodeEditInput =
  file_path :: string
  old_string :: string
  new_string :: string
  expected_replacements :: "int option"

text \<open>Every \<open>throw\<close> of \<open>execute\<close> is a value of \<open>edit_error\<close>; the constructor
  carries what the message interpolates. In order: "Operation aborted"; "Missing
  required parameter: file_path"; "File already exists: \<open>file_path\<close>"; "File does not
  exist: \<open>file_path\<close>"; the rejection of \<open>readFile\<close>; "No changes to apply:
  old_string and new_string are identical"; "No match found in \<open>file_path\<close>";
  "Occurrence count mismatch in \<open>file_path\<close>: expected \<open>n\<close> but found \<open>k\<close> exact
  match(es)"; "Occurrence count mismatch in \<open>file_path\<close>: expected \<open>n\<close>, found \<open>w\<close>
  (whitespace-tolerant) and \<open>t\<close> (token-based)".\<close>

datatype edit_error =
    OperationAborted
  | MissingFilePath
  | FileAlreadyExists string
  | FileDoesNotExist string
  | ReadRejected string
  | NoChangesToApply
  | NoMatchFound string
  | ExactCountMismatch string int nat
  | RelaxedCountMismatch string int nat nat

datatype strategy = Exact | WhitespaceTolerant | TokenBased

text \<open>The responses: "Created new file: \<open>file_path\<close>" with the line count and a
  preview of \<open>new_string\<close>; "No changes needed for \<open>file_path\<close>"; "Successfully edited
  \<open>file_path\<close>" with the strategy, the expected count and the context lines taken from
  the new content.\<close>

datatype edit_response =
    CreatedNewFile string nat string
  | NoChangesNeeded string
  | SuccessfullyEdited string strategy int string

definition expectedCountOf :: "int option \<Rightarrow> int" where
  "expectedCountOf expected = max 1 (case expected of None \<Rightarrow> 1 | Some n \<Rightarrow> n)"

text \<open>The three-tier matching of \<open>execute\<close>, with its error reporting: the new
  content and the strategy that produced it, or the error thrown.\<close>

definition threeTierMatch ::
  "string \<Rightarrow> string \<Rightarrow> string \<Rightarrow> string \<Rightarrow> int \<Rightarrow> edit_error + (string \<times> strategy)" where
  "threeTierMatch path contentLF oldLF newLF expectedCount =
     (let wsRegex = buildWhitespaceTolerantRegex oldLF;
          tokenRegex = buildTokenRegex oldLF;
          exactCount = countOccurrences contentLF oldLF
      in if int exactCount = expectedCount
         then Inr (safeLiteralReplace contentLF oldLF newLF, Exact)
         else let wsCount = countRegexMatches contentLF wsRegex
           in if int wsCount = expectedCount
              then Inr (regexReplaceFn contentLF wsRegex newLF, WhitespaceTolerant)
              else let tokenCount = countRegexMatches contentLF tokenRegex
                in if int tokenCount = expectedCount
                   then Inr (regexReplaceFn contentLF tokenRegex newLF, TokenBased)
                   else let anyMatches = (exactCount > 0 \<or> wsCount > 0 \<or> tokenCount > 0)
                     in if \<not> anyMatches then Inl (NoMatchFound path)
                        else if exactCount > 0
                        then Inl (ExactCountMismatch path expectedCount exactCount)
                        else Inl (RelaxedCountMismatch path expectedCount wsCount tokenCount))"

text \<open>The two branches of \<open>execute\<close>: the creation of a new file, taken when
  \<open>old_string\<close> is empty, and the edit of an existing one.\<close>

definition createFileMode ::
  "Env \<Rightarrow> CodeEditInput \<Rightarrow> string \<Rightarrow> FileSystem \<Rightarrow> (edit_error + edit_response) \<times> FileSystem" where
  "createFileMode env args absolutePath fs =
     (let (exists, fs1) = access fs absolutePath
      in if exists then (Inl (FileAlreadyExists (file_path args)), fs1)
         else let fs2 = mkdir fs1 (dirname env absolutePath);
                  fs3 = writeFile fs2 absolutePath (new_string args);
                  lineCount = length (splitLines (new_string args))
              in (Inr (CreatedNewFile (file_path args) lineCount (new_string args)), fs3))"

definition editMode ::
  "signal \<Rightarrow> CodeEditInput \<Rightarrow> int \<Rightarrow> string \<Rightarrow> FileSystem
     \<Rightarrow> (edit_error + edit_response) \<times> FileSystem" where
  "editMode aborted args expectedCount absolutePath fs =
     (let (ok, fs1) = access fs absolutePath
      in if \<not> ok then (Inl (FileDoesNotExist (file_path args)), fs1)
         else if aborted 1 then (Inl OperationAborted, fs1)
         else case readFile fs1 absolutePath of
           (None, fs2) \<Rightarrow> (Inl (ReadRejected absolutePath), fs2)
         | (Some rawContent, fs2) \<Rightarrow>
             let originalEol = detectLineEnding rawContent;
                 contentLF = normalizeToLF rawContent;
                 oldLF = normalizeToLF (old_string args);
                 newLF = normalizeToLF (new_string args)
             in if oldLF = newLF then (Inl NoChangesToApply, fs2)
                else if aborted 2 then (Inl OperationAborted, fs2)
                else case threeTierMatch (file_path args) contentLF oldLF newLF expectedCount of
                  Inl err \<Rightarrow> (Inl err, fs2)
                | Inr (resultContentLF, matchStrategy) \<Rightarrow>
                    if resultContentLF = contentLF
                    then (Inr (NoChangesNeeded (file_path args)), fs2)
                    else let finalContent = restoreLineEnding resultContentLF originalEol;
                             fs3 = writeFile fs2 absolutePath finalContent
                         in (Inr (SuccessfullyEdited (file_path args) matchStrategy
                                    expectedCount resultContentLF), fs3))"

definition codeEditExecute ::
  "Env \<Rightarrow> signal \<Rightarrow> CodeEditInput \<Rightarrow> FileSystem \<Rightarrow> (edit_error + edit_response) \<times> FileSystem" where
  "codeEditExecute env aborted args fs =
     (let expectedCount = expectedCountOf (expected_replacements args)
      in if aborted 0 then (Inl OperationAborted, fs)
         else if file_path args = [] \<or> trim (file_path args) = [] then (Inl MissingFilePath, fs)
         else let absolutePath = resolveToCwd env (file_path args)
              in if old_string args = [] then createFileMode env args absolutePath fs
                 else editMode aborted args expectedCount absolutePath fs)"

section \<open>The multi-hunk tool\<close>

subsection \<open>Parsing the SEARCH/REPLACE blocks\<close>

record DiffBlock =
  startLine :: "nat option"
  searchContent :: string
  replaceContent :: string
  rawBlock :: string

datatype block_error =
    EmptySearchContent
  | CouldNotFind "nat option" string

record DiffBlockResult =
  block :: DiffBlock
  success :: bool
  error :: "block_error option"
  matchedAtLine :: "nat option"

definition SEARCH_MARKER :: string where "SEARCH_MARKER = ''<<<<<<< SEARCH''"
definition SEPARATOR_MARKER :: string where "SEPARATOR_MARKER = ''=======''"
definition REPLACE_MARKER :: string where "REPLACE_MARKER = ''>>>>>>> REPLACE''"
definition DIVIDER_MARKER :: string where "DIVIDER_MARKER = ''-------''"

definition is_digit :: "char \<Rightarrow> bool" where
  "is_digit c = (c \<in> set ''0123456789'')"

text \<open>\<open>START_LINE_RE\<close> is \<open>/^:start_line:(\d+)\s*$/\<close>; \<open>startLineMatch s\<close> is the
  text of its group when the pattern matches \<open>s\<close>.\<close>

definition startLineMatch :: "string \<Rightarrow> string option" where
  "startLineMatch s =
     (if prefix '':start_line:'' s
      then let r = drop (length '':start_line:'') s;
               ds = takeWhile is_digit r;
               tl = dropWhile is_digit r
           in if ds \<noteq> [] \<and> list_all is_space tl then Some ds else None
      else None)"

text \<open>\<open>parseInt(ds, 10)\<close> on a string of decimal digits.\<close>

definition parseInt :: "string \<Rightarrow> nat" where
  "parseInt ds = foldl (\<lambda>n c. 10 * n + (of_char c - 48)) 0 ds"

datatype parse_error =
    MissingSeparator nat
  | MissingReplaceMarker nat

text \<open>The two inner loops of \<open>parseDiffBlocks\<close>: collect the lines from \<open>i\<close> up to the
  next line that is the marker once trimmed.\<close>

function collectUntil :: "string list \<Rightarrow> string \<Rightarrow> nat \<Rightarrow> string list \<Rightarrow> string list \<times> nat" where
  "collectUntil lines marker i acc =
     (if i < length lines \<and> trim (lines ! i) \<noteq> marker
      then collectUntil lines marker (i + 1) (acc @ [lines ! i])
      else (acc, i))"
  by pat_completeness auto
termination
  by (relation "measure (\<lambda>(lines, marker, i, acc). length lines - i)") auto

declare collectUntil.simps [simp del]

lemma collectUntil_index: "collectUntil lines marker i acc = (ls, j) \<Longrightarrow> i \<le> j"
proof (induction lines marker i acc rule: collectUntil.induct)
  case (1 lines marker i acc)
  show ?case
  proof (cases "i < length lines \<and> trim (lines ! i) \<noteq> marker")
    case True
    with "1.prems" have "collectUntil lines marker (i + 1) (acc @ [lines ! i]) = (ls, j)"
      by (simp add: collectUntil.simps[of lines marker i acc])
    from "1.IH"[OF True this] show ?thesis by simp
  next
    case False
    with "1.prems" show ?thesis by (simp add: collectUntil.simps[of lines marker i acc])
  qed
qed

text \<open>The outer loop of \<open>parseDiffBlocks\<close>, on the index \<open>i\<close> and the blocks pushed so
  far.\<close>

function parseLoop :: "string list \<Rightarrow> nat \<Rightarrow> DiffBlock list \<Rightarrow> parse_error + DiffBlock list" where
  "parseLoop lines i blocks =
     (if \<not> i < length lines then Inr blocks
      else if trim (lines ! i) \<noteq> SEARCH_MARKER then parseLoop lines (i + 1) blocks
      else
        let blockStartIdx = i;
            i1 = i + 1;
            hasStart = (i1 < length lines \<and> startLineMatch (trim (lines ! i1)) \<noteq> None);
            startLn = (if hasStart then map_option parseInt (startLineMatch (trim (lines ! i1)))
                       else None);
            i2 = (if hasStart then i1 + 1 else i1);
            i3 = (if i2 < length lines \<and> trim (lines ! i2) = DIVIDER_MARKER then i2 + 1 else i2);
            searchLines = fst (collectUntil lines SEPARATOR_MARKER i3 []);
            i4 = snd (collectUntil lines SEPARATOR_MARKER i3 [])
        in if length lines \<le> i4 then Inl (MissingSeparator (blockStartIdx + 1))
           else
             let i5 = i4 + 1;
                 replaceLines = fst (collectUntil lines REPLACE_MARKER i5 []);
                 i6 = snd (collectUntil lines REPLACE_MARKER i5 [])
             in if length lines \<le> i6 then Inl (MissingReplaceMarker (blockStartIdx + 1))
                else
                  let i7 = i6 + 1;
                      raw = joinLines (slice lines blockStartIdx i7)
                  in parseLoop lines i7
                       (blocks @ [\<lparr>startLine = startLn,
                                   searchContent = joinLines searchLines,
                                   replaceContent = joinLines replaceLines,
                                   rawBlock = raw\<rparr>]))"
  by pat_completeness auto
termination
proof (relation "measure (\<lambda>(lines, i, blocks). length lines - i)", goal_cases)
  case 1
  show ?case by simp
next
  case (2 lines i blocks)
  then show ?case by simp
next
  case (3 lines i blocks x1 x2 x3 x4 x5 x6 x7 x8 x9 x10 x11 x12 x13)
  obtain ls1 j1 where c1: "collectUntil lines SEPARATOR_MARKER x6 [] = (ls1, j1)"
    by (cases "collectUntil lines SEPARATOR_MARKER x6 []") auto
  obtain ls2 j2 where c2: "collectUntil lines REPLACE_MARKER x9 [] = (ls2, j2)"
    by (cases "collectUntil lines REPLACE_MARKER x9 []") auto
  from collectUntil_index[OF c1] collectUntil_index[OF c2] 3 c1 c2
  have "i < x12" by (auto split: if_splits)
  with 3 show ?case by auto
qed

declare parseLoop.simps [simp del]

definition parseDiffBlocks :: "string \<Rightarrow> parse_error + DiffBlock list" where
  "parseDiffBlocks diff = parseLoop (splitLines diff) 0 []"

subsection \<open>Locating a block\<close>

text \<open>\<open>contentLF.substring(0, idx).split("\n").length\<close>: the 1-indexed line of the
  offset \<open>idx\<close>.\<close>

definition lineOfOffset :: "string \<Rightarrow> nat \<Rightarrow> nat" where
  "lineOfOffset contentLF idx = length (splitLines (substring contentLF 0 idx))"

text \<open>Strategy 1 of \<open>findSearchContent\<close>, the exact match near the hinted line, as
  (index, matchedAtLine).\<close>

definition findNearHint :: "string \<Rightarrow> string \<Rightarrow> nat \<Rightarrow> (nat \<times> nat) option" where
  "findNearHint contentLF searchLF startLn =
     (let lines = splitLines contentLF;
          windowSize = 30;
          hintIdx = int startLn - 1;
          windowStart = nat (max 0 (hintIdx - windowSize));
          windowEnd = nat (min (int (length lines)) (hintIdx + windowSize));
          windowLines = slice lines windowStart windowEnd;
          windowContent = joinLines windowLines
      in case indexOf windowContent searchLF of
           None \<Rightarrow> None
         | Some localIdx \<Rightarrow>
             let prefixLength = length (joinLines (slice lines 0 windowStart))
                                  + (if windowStart > 0 then 1 else 0);
                 globalIdx = prefixLength + localIdx
             in Some (globalIdx, lineOfOffset contentLF globalIdx))"

text \<open>Strategy 3, the whitespace-tolerant match: the pattern is compiled without the
  global flag and \<open>exec\<close> gives its leftmost match.\<close>

definition findWhitespaceTolerant :: "string \<Rightarrow> string \<Rightarrow> (nat \<times> nat) option" where
  "findWhitespaceTolerant contentLF searchLF =
     (let parts = matchRuns searchLF
      in if length parts > 0
         then (case regexExec (Pattern (map segOfPart parts)) contentLF of
                 Some (i, n) \<Rightarrow> Some (i, lineOfOffset contentLF i)
               | None \<Rightarrow> None)
         else None)"

definition findSearchContent :: "string \<Rightarrow> string \<Rightarrow> nat option \<Rightarrow> (nat \<times> nat) option" where
  "findSearchContent contentLF searchLF startLn =
     (case (case startLn of
              Some n \<Rightarrow> if n > 0 then findNearHint contentLF searchLF n else None
            | None \<Rightarrow> None) of
        Some found \<Rightarrow> Some found
      | None \<Rightarrow>
          (case indexOf contentLF searchLF of
             Some idx \<Rightarrow> Some (idx, lineOfOffset contentLF idx)
           | None \<Rightarrow> findWhitespaceTolerant contentLF searchLF))"

subsection \<open>Applying the blocks\<close>

record MatchResult =
  m_block :: DiffBlock
  m_index :: nat
  m_matchLength :: nat
  m_matchedAtLine :: nat
  m_searchLF :: string
  m_replaceLF :: string

definition searchPreview :: "string \<Rightarrow> string" where
  "searchPreview searchLF =
     (if length searchLF > 80 then substring searchLF 0 80 @ ''...'' else searchLF)"

text \<open>The hint shown in a diagnostic: \<open>block.startLine ? ... : ""\<close> leaves out an absent
  hint and the hint 0.\<close>

definition shownHint :: "nat option \<Rightarrow> nat option" where
  "shownHint startLn = (case startLn of Some n \<Rightarrow> if n \<noteq> 0 then Some n else None | None \<Rightarrow> None)"

text \<open>The first loop of \<open>applyAllBlocks\<close>: every block is looked up in \<open>contentLF\<close>;
  the result is the pair of \<open>matchResults\<close> and \<open>failResults\<close>, each in block order.\<close>

fun locateBlocks :: "string \<Rightarrow> DiffBlock list \<Rightarrow> MatchResult list \<times> DiffBlockResult list" where
  "locateBlocks contentLF [] = ([], [])"
| "locateBlocks contentLF (b # bs) =
     (let searchLF = normalizeToLF (searchContent b);
          replaceLF = normalizeToLF (replaceContent b);
          rest = locateBlocks contentLF bs
      in if searchLF = []
         then (fst rest,
               \<lparr>block = b, success = False, error = Some EmptySearchContent,
                matchedAtLine = None\<rparr> # snd rest)
         else case findSearchContent contentLF searchLF (startLine b) of
           None \<Rightarrow>
             (fst rest,
              \<lparr>block = b, success = False,
               error = Some (CouldNotFind (shownHint (startLine b)) (searchPreview searchLF)),
               matchedAtLine = None\<rparr> # snd rest)
         | Some (idx, ln) \<Rightarrow>
             (\<lparr>m_block = b, m_index = idx, m_matchLength = length searchLF,
               m_matchedAtLine = ln, m_searchLF = searchLF, m_replaceLF = replaceLF\<rparr> # fst rest,
              snd rest))"

text \<open>\<open>matchResults.sort((a, b) => b.index - a.index)\<close>: a stable sort, descending
  in the index.\<close>

definition sortDescending :: "MatchResult list \<Rightarrow> MatchResult list" where
  "sortDescending ms = sort_key (\<lambda>m. - int (m_index m)) ms"

definition spliceOne :: "string \<Rightarrow> MatchResult \<Rightarrow> string" where
  "spliceOne result m =
     substring result 0 (m_index m) @ m_replaceLF m
       @ drop (m_index m + m_matchLength m) result"

definition successOf :: "MatchResult \<Rightarrow> DiffBlockResult" where
  "successOf m =
     \<lparr>block = m_block m, success = True, error = None, matchedAtLine = Some (m_matchedAtLine m)\<rparr>"

text \<open>The last loop of \<open>applyAllBlocks\<close>: for each block, the success result of that
  block if there is one, else its failure result. The program compares blocks by
  identity; two blocks that are equal in every field have equal results, so the model
  compares the fields.\<close>

definition combineResults ::
  "DiffBlock list \<Rightarrow> DiffBlockResult list \<Rightarrow> DiffBlockResult list \<Rightarrow> DiffBlockResult list" where
  "combineResults blocks successResults failResults =
     concat (map (\<lambda>b.
       case find (\<lambda>r. block r = b) successResults of
         Some s \<Rightarrow> [s]
       | None \<Rightarrow> (case find (\<lambda>r. block r = b) failResults of
                    Some f \<Rightarrow> [f]
                  | None \<Rightarrow> [])) blocks)"

definition applyAllBlocks :: "string \<Rightarrow> DiffBlock list \<Rightarrow> string \<times> DiffBlockResult list" where
  "applyAllBlocks contentLF blocks =
     (let located = locateBlocks contentLF blocks;
          matchResults = sortDescending (fst located);
          failResults = snd located;
          result = foldl spliceOne contentLF matchResults;
          successResults = map successOf matchResults
      in (result, combineResults blocks successResults failResults))"

subsection \<open>The tool\<close>

record CodeApplyDiffInput =
  diff_file_path :: string
  diff :: string

text \<open>The errors thrown: "Operation aborted"; "Missing required parameter: file_path";
  "Missing required parameter: diff"; "File does not exist: \<open>file_path\<close>"; "Failed to
  parse diff"; "No SEARCH/REPLACE blocks found in diff"; the rejection of \<open>readFile\<close>;
  "All \<open>n\<close> diff block(s) failed to apply to \<open>file_path\<close>" with the error of each
  block.\<close>

datatype diff_error =
    DiffAborted
  | DiffMissingFilePath
  | DiffMissingDiff
  | DiffFileDoesNotExist string
  | DiffParseFailed parse_error
  | NoBlocksFound
  | DiffReadRejected string
  | AllBlocksFailed string nat "DiffBlockResult list"

text \<open>The responses: "No changes needed for \<open>file_path\<close>"; "Applied
  \<open>successCount\<close>/\<open>blocks.length\<close> diff block(s) to \<open>file_path\<close>" followed by a line
  for each result, and the context lines taken from the new content.\<close>

datatype diff_response =
    DiffNoChangesNeeded string
  | Applied nat nat string "DiffBlockResult list" string

definition codeApplyDiffExecute ::
  "Env \<Rightarrow> signal \<Rightarrow> CodeApplyDiffInput \<Rightarrow> FileSystem
     \<Rightarrow> (diff_error + diff_response) \<times> FileSystem" where
  "codeApplyDiffExecute env aborted args fs =
     (if aborted 0 then (Inl DiffAborted, fs)
      else if diff_file_path args = [] \<or> trim (diff_file_path args) = []
      then (Inl DiffMissingFilePath, fs)
      else if diff args = [] \<or> trim (diff args) = [] then (Inl DiffMissingDiff, fs)
      else
        let absolutePath = resolveToCwd env (diff_file_path args);
            (ok, fs1) = access fs absolutePath
        in if \<not> ok then (Inl (DiffFileDoesNotExist (diff_file_path args)), fs1)
           else if aborted 1 then (Inl DiffAborted, fs1)
           else case parseDiffBlocks (diff args) of
             Inl err \<Rightarrow> (Inl (DiffParseFailed err), fs1)
           | Inr blocks \<Rightarrow>
               if length blocks = 0 then (Inl NoBlocksFound, fs1)
               else case readFile fs1 absolutePath of
                 (None, fs2) \<Rightarrow> (Inl (DiffReadRejected absolutePath), fs2)
               | (Some rawContent, fs2) \<Rightarrow>
                   let originalEol = detectLineEnding rawContent;
                       contentLF = normalizeToLF rawContent
                   in if aborted 2 then (Inl DiffAborted, fs2)
                      else
                        let (newContentLF, results) = applyAllBlocks contentLF blocks;
                            successCount = length (filter (\<lambda>r. success r) results);
                            failCount = length (filter (\<lambda>r. \<not> success r) results)
                        in if successCount = 0
                           then (Inl (AllBlocksFailed (diff_file_path args) failCount results), fs2)
                           else
                             let finalContent = restoreLineEnding newContentLF originalEol
                             in if finalContent = rawContent
                                then (Inr (DiffNoChangesNeeded (diff_file_path args)), fs2)
                                else
                                  let fs3 = writeFile fs2 absolutePath finalContent
                                  in (Inr (Applied successCount (length blocks)
                                             (diff_file_path args) results newContentLF), fs3))"

section \<open>Reference notions for the multi-hunk claims\<close>

text \<open>The range a located block replaces is \<open>[m_index, m_index + m_matchLength)\<close>. Two
  ranges are disjoint when one ends at or before the start of the other. In a processing
  order, every splice lies strictly before the splices already processed when the range of
  each later element ends at or before the start of each earlier one.\<close>

definition rangesDisjoint :: "MatchResult \<Rightarrow> MatchResult \<Rightarrow> bool" where
  "rangesDisjoint a b =
     (m_index a + m_matchLength a \<le> m_index b \<or> m_index b + m_matchLength b \<le> m_index a)"

definition splicesStrictlyBefore :: "MatchResult list \<Rightarrow> bool" where
  "splicesStrictlyBefore ms =
     sorted_wrt (\<lambda>a b. m_index b + m_matchLength b \<le> m_index a) ms"

text \<open>A located block is located exactly when its search body stands in the content at
  the located offset: the range is then the matched text. (A block found by the
  whitespace-tolerant pattern is not: that pattern is tried when the search body occurs
  nowhere.)\<close>

definition exactlyLocated :: "string \<Rightarrow> MatchResult \<Rightarrow> bool" where
  "exactlyLocated contentLF m = prefix (m_searchLF m) (drop (m_index m) contentLF)"

text \<open>Replacing ranges of the original content all at once: the ranges are given in
  ascending order, \<open>pos\<close> is the offset up to which the content has been consumed.\<close>

fun replaceRanges :: "string \<Rightarrow> MatchResult list \<Rightarrow> nat \<Rightarrow> string" where
  "replaceRanges c [] pos = drop pos c"
| "replaceRanges c (m # ms) pos =
     take (m_index m - pos) (drop pos c) @ m_replaceLF m
       @ replaceRanges c ms (m_index m + m_matchLength m)"

text \<open>A block locates in a content when its search body is not empty and the locator
  finds it; \<open>blockOutcome\<close> is the result reported for the block.\<close>

definition locates :: "string \<Rightarrow> DiffBlock \<Rightarrow> bool" where
  "locates contentLF b =
     (normalizeToLF (searchContent b) \<noteq> []
      \<and> findSearchContent contentLF (normalizeToLF (searchContent b)) (startLine b) \<noteq> None)"

definition blockOutcome :: "string \<Rightarrow> DiffBlock \<Rightarrow> DiffBlockResult" where
  "blockOutcome contentLF b =
     (if normalizeToLF (searchContent b) = []
      then \<lparr>block = b, success = False, error = Some EmptySearchContent, matchedAtLine = None\<rparr>
      else case findSearchContent contentLF (normalizeToLF (searchContent b)) (startLine b) of
        None \<Rightarrow>
          \<lparr>block = b, success = False,
           error = Some (CouldNotFind (shownHint (startLine b))
                     (searchPreview (normalizeToLF (searchContent b)))),
           matchedAtLine = None\<rparr>
      | Some (idx, ln) \<Rightarrow>
          \<lparr>block = b, success = True, error = None, matchedAtLine = Some ln\<rparr>)"

text \<open>What the first loop of \<open>applyAllBlocks\<close> pushes for one block: the match found,
  or the failure recorded.\<close>

definition matchOf :: "string \<Rightarrow> DiffBlock \<Rightarrow> MatchResult option" where
  "matchOf contentLF b =
     (if normalizeToLF (searchContent b) = [] then None
      else case findSearchContent contentLF (normalizeToLF (searchContent b)) (startLine b) of
        None \<Rightarrow> None
      | Some (idx, ln) \<Rightarrow>
          Some \<lparr>m_block = b, m_index = idx,
                m_matchLength = length (normalizeToLF (searchContent b)),
                m_matchedAtLine = ln, m_searchLF = normalizeToLF (searchContent b),
                m_replaceLF = normalizeToLF (replaceContent b)\<rparr>)"

definition failOf :: "string \<Rightarrow> DiffBlock \<Rightarrow> DiffBlockResult option" where
  "failOf contentLF b = (if locates contentLF b then None else Some (blockOutcome contentLF b))"

section \<open>A small environment for concrete runs\<close>

text \<open>Paths are taken as they are, one file named \<open>f\<close> exists, and the signal is
  never aborted.\<close>

definition exampleEnv :: Env where
  "exampleEnv = \<lparr>resolveToCwd = (\<lambda>p. p), dirname = (\<lambda>p. ''.'')\<rparr>"

definition exampleFs :: "string \<Rightarrow> FileSystem" where
  "exampleFs content = \<lparr>files = [''f'' \<mapsto> content], trace = []\<rparr>"

definition neverAborted :: signal where
  "neverAborted = (\<lambda>k. False)"

text \<open>A block without a line hint, as the parser builds it from its five lines.\<close>

definition exampleBlock :: "string \<Rightarrow> string \<Rightarrow> DiffBlock" where
  "exampleBlock s r =
     \<lparr>startLine = None, searchContent = s, replaceContent = r,
      rawBlock = joinLines [SEARCH_MARKER, s, SEPARATOR_MARKER, r, REPLACE_MARKER]\<rparr>"

text \<open>The text of a diff with the given (search, replace) hunks, none with a line
  hint.\<close>

definition exampleDiff :: "(string \<times> string) list \<Rightarrow> string" where
  "exampleDiff hunks =
     joinLines (concat (map (\<lambda>(s, r). [SEARCH_MARKER, s, SEPARATOR_MARKER, r, REPLACE_MARKER]) hunks))"

text \<open>A file of 71 lines, the first and the last \<open>a\<close> and the others empty, and the
  text of a diff with one hunk hinted at line 41 that replaces \<open>a\<close> by \<open>X\<close>.\<close>

definition exampleLongFile :: string where
  "exampleLongFile = CHR ''a'' # replicate 70 LF @ ''a''"

definition exampleHintedDiff :: string where
  "exampleHintedDiff =
     joinLines [SEARCH_MARKER, '':start_line:41'', DIVIDER_MARKER, ''a'', SEPARATOR_MARKER,
                ''X'', REPLACE_MARKER]"

section \<open>Facts about the string functions\<close>

lemma indexOf_Some_first:
  "indexOf s sub = Some i \<Longrightarrow> j < i \<Longrightarrow> \<not> prefix sub (drop j s)"
proof (induction s arbitrary: i j)
  case Nil then show ?case by (simp split: if_splits)
next
  case (Cons c cs)
  show ?case
  proof (cases "prefix sub (c # cs)")
    case True
    with Cons.prems show ?thesis by simp
  next
    case False
    with Cons.prems obtain k where k: "indexOf cs sub = Some k" "i = Suc k" by auto
    show ?thesis
    proof (cases j)
      case 0 with False show ?thesis by simp
    next
      case (Suc j')
      with Cons.prems k have "j' < k" by simp
      from Cons.IH[OF k(1) this] Suc show ?thesis by simp
    qed
  qed
qed

lemma indexOf_None_iff:
  "indexOf s sub = None \<longleftrightarrow> (\<forall>j \<le> length s. \<not> prefix sub (drop j s))"
proof (induction s)
  case Nil then show ?case by simp
next
  case (Cons c cs)
  show ?case
  proof (cases "prefix sub (c # cs)")
    case True
    then show ?thesis by auto
  next
    case False
    have "(\<forall>j \<le> length (c # cs). \<not> prefix sub (drop j (c # cs))) \<longleftrightarrow>
          (\<forall>j \<le> length cs. \<not> prefix sub (drop j cs))"
    proof
      assume a: "\<forall>j \<le> length (c # cs). \<not> prefix sub (drop j (c # cs))"
      show "\<forall>j \<le> length cs. \<not> prefix sub (drop j cs)"
      proof (intro allI impI)
        fix j assume "j \<le> length cs"
        with a[rule_format, of "Suc j"] show "\<not> prefix sub (drop j cs)" by simp
      qed
    next
      assume a: "\<forall>j \<le> length cs. \<not> prefix sub (drop j cs)"
      show "\<forall>j \<le> length (c # cs). \<not> prefix sub (drop j (c # cs))"
      proof (intro allI impI)
        fix j assume j: "j \<le> length (c # cs)"
        show "\<not> prefix sub (drop j (c # cs))"
        proof (cases j)
          case 0 with False show ?thesis by simp
        next
          case (Suc j') with j a show ?thesis by simp
        qed
      qed
    qed
    with False Cons.IH show ?thesis by simp
  qed
qed

lemma includes_str_iff: "includes_str s sub \<longleftrightarrow> (\<exists>u v. s = u @ sub @ v)"
proof
  assume "includes_str s sub"
  then obtain i where i: "indexOf s sub = Some i" by (auto simp: includes_str_def)
  from indexOf_bounds[OF this] obtain v where "drop i s = sub @ v" by (auto simp: prefix_def)
  then have "s = take i s @ sub @ v" by (metis append_take_drop_id)
  then show "\<exists>u v. s = u @ sub @ v" by blast
next
  assume "\<exists>u v. s = u @ sub @ v"
  then obtain u v where s: "s = u @ sub @ v" by blast
  have "prefix sub (drop (length u) s)" "length u \<le> length s" by (simp_all add: s)
  then have "indexOf s sub \<noteq> None" using indexOf_None_iff by blast
  then show "includes_str s sub" by (simp add: includes_str_def)
qed


lemma execSegs_bound: "execSegs gs s = Some (i, n) \<Longrightarrow> i \<le> length s"
  by (induction s arbitrary: i) (auto split: option.splits)

section \<open>Literal replacement\<close>

text \<open>\<open>safeLiteralReplace\<close> is literal replacement: the replacement text goes through
  \<open>GetSubstitution\<close>, and the doubling of its dollar signs makes that the identity.\<close>

lemma literalReplaceAll_no_occurrence:
  "indexOf t old = None \<Longrightarrow> literalReplaceAll t old new = t"
  by (induction t) (auto split: if_splits)

lemma literalReplaceAll_first:
  "old \<noteq> [] \<Longrightarrow> indexOf t old = Some i \<Longrightarrow>
     literalReplaceAll t old new = take i t @ new @ literalReplaceAll (drop (i + length old) t) old new"
proof (induction t arbitrary: i)
  case Nil
  then show ?case by (simp split: if_splits)
next
  case (Cons c cs)
  show ?case
  proof (cases "prefix old (c # cs)")
    case True
    with Cons.prems show ?thesis by simp
  next
    case False
    with Cons.prems obtain j where j: "indexOf cs old = Some j" "i = Suc j" by auto
    from Cons.IH[OF Cons.prems(1) j(1)] False j(2) show ?thesis by simp
  qed
qed

lemma countLiteral_no_occurrence: "indexOf t old = None \<Longrightarrow> countLiteral t old = 0"
  by (induction t) (auto split: if_splits)

lemma countLiteral_first:
  "old \<noteq> [] \<Longrightarrow> indexOf t old = Some i \<Longrightarrow>
     countLiteral t old = Suc (countLiteral (drop (i + length old) t) old)"
proof (induction t arbitrary: i)
  case Nil
  then show ?case by (simp split: if_splits)
next
  case (Cons c cs)
  show ?case
  proof (cases "prefix old (c # cs)")
    case True
    with Cons.prems show ?thesis by simp
  next
    case False
    with Cons.prems obtain j where j: "indexOf cs old = Some j" "i = Suc j" by auto
    from Cons.IH[OF Cons.prems(1) j(1)] False j(2) show ?thesis by simp
  qed
qed

lemma substring_take_drop: "a \<le> b \<Longrightarrow> b \<le> length s \<Longrightarrow> substring s a b = take (b - a) (drop a s)"
  by (simp add: substring_def Let_def min_def max_def)

lemma replaceAt_literal:
  assumes ne: "old \<noteq> []" and sub: "\<And>p. getSubstitution old s p repl = new"
  shows "e \<le> length s \<Longrightarrow>
     replaceAt s old repl (matchPositions s old e) e = literalReplaceAll (drop e s) old new"
proof (induction "Suc (length s) - e" arbitrary: e rule: less_induct)
  case less
  show ?case
  proof (cases "indexOf (drop e s) old")
    case None
    with less.prems have "matchPositions s old e = []"
      by (simp add: matchPositions.simps[of s old e] stringIndexOf_def)
    with None show ?thesis by (simp add: literalReplaceAll_no_occurrence)
  next
    case (Some i)
    define p where "p = i + e"
    from indexOf_bounds[OF Some] less.prems have bnd: "p + length old \<le> length s"
      unfolding p_def by (simp only: length_drop) arith
    from ne have max1: "max (Suc 0) (length old) = length old" by (cases old) simp_all
    from Some less.prems have six: "stringIndexOf s old e = Some p"
      by (simp add: stringIndexOf_def p_def)
    have mp: "matchPositions s old e = p # matchPositions s old (p + length old)"
      by (simp add: matchPositions.simps[of s old e] six max1)
    from ne have "0 < length old" by simp
    with bnd less.prems have "Suc (length s) - (p + length old) < Suc (length s) - e"
      unfolding p_def by arith
    from less.hyps[OF this bnd]
    have IH: "replaceAt s old repl (matchPositions s old (p + length old)) (p + length old)
            = literalReplaceAll (drop (p + length old) s) old new" .
    have sb: "substring s e p = take i (drop e s)"
      using bnd by (simp add: substring_take_drop p_def)
    have "replaceAt s old repl (matchPositions s old e) e
          = take i (drop e s) @ new @ literalReplaceAll (drop (p + length old) s) old new"
      by (simp add: mp sub IH sb)
    also have "\<dots> = literalReplaceAll (drop e s) old new"
      using literalReplaceAll_first[OF ne Some, of new]
      by (simp add: p_def add.commute add.left_commute)
    finally show ?thesis .
  qed
qed

lemma replaceAll_literal:
  assumes "old \<noteq> []" and "\<And>p. getSubstitution old s p repl = new"
  shows "replaceAll s old repl = literalReplaceAll s old new"
  using replaceAt_literal[OF assms, of 0] by (simp add: replaceAll_def)

lemma getSubstitution_plain: "c \<noteq> DOLLAR \<Longrightarrow>
   getSubstitution m s p (c # t) = c # getSubstitution m s p t"
  by (cases t) simp_all

lemma getSubstitution_no_dollar:
  "DOLLAR \<notin> set t \<Longrightarrow> getSubstitution m s p t = t"
proof (induction t)
  case Nil
  show ?case by simp
next
  case (Cons c t)
  then have "c \<noteq> DOLLAR" and "getSubstitution m s p t = t" by auto
  then show ?case using getSubstitution_plain[of c m s p t] by simp
qed

lemma includes_single: "includes_str t [c] \<longleftrightarrow> c \<in> set t"
  by (induction t) (auto simp: includes_str_def)

lemma escape_dollars:
  "replaceAll t [DOLLAR] [DOLLAR, DOLLAR, DOLLAR, DOLLAR] = literalReplaceAll t [DOLLAR] [DOLLAR, DOLLAR]"
  by (rule replaceAll_literal) simp_all

lemma getSubstitution_escaped:
  "getSubstitution m s p (literalReplaceAll t [DOLLAR] [DOLLAR, DOLLAR]) = t"
proof (induction t)
  case Nil
  show ?case by simp
next
  case (Cons c t)
  show ?case
  proof (cases "c = DOLLAR")
    case True
    have "literalReplaceAll (DOLLAR # t) [DOLLAR] [DOLLAR, DOLLAR]
          = DOLLAR # DOLLAR # literalReplaceAll t [DOLLAR] [DOLLAR, DOLLAR]"
      by simp
    with True Cons.IH show ?thesis by (simp only: getSubstitution.simps) simp
  next
    case False
    then have "literalReplaceAll (c # t) [DOLLAR] [DOLLAR, DOLLAR]
          = c # literalReplaceAll t [DOLLAR] [DOLLAR, DOLLAR]"
      by simp
    with False Cons.IH show ?thesis
      using getSubstitution_plain[of c m s p "literalReplaceAll t [DOLLAR] [DOLLAR, DOLLAR]"]
      by simp
  qed
qed

lemma safeLiteralReplace_literal:
  "safeLiteralReplace str old new = literalReplaceAll str old new"
proof (cases "old = [] \<or> \<not> includes_str str old")
  case True
  then show ?thesis
  proof
    assume "old = []"
    moreover have "literalReplaceAll str [] new = str" by (induction str) simp_all
    ultimately show ?thesis by (simp add: safeLiteralReplace_def)
  next
    assume "\<not> includes_str str old"
    then show ?thesis
      by (simp add: safeLiteralReplace_def includes_str_def literalReplaceAll_no_occurrence)
  qed
next
  case False
  then have ne: "old \<noteq> []" and inc: "includes_str str old" by simp_all
  show ?thesis
  proof (cases "includes_str new [DOLLAR]")
    case True
    have "replaceAll str old (literalReplaceAll new [DOLLAR] [DOLLAR, DOLLAR]) = literalReplaceAll str old new"
      by (rule replaceAll_literal[OF ne]) (rule getSubstitution_escaped)
    with True ne inc show ?thesis
      by (simp add: safeLiteralReplace_def escape_dollars)
  next
    case False
    then have "DOLLAR \<notin> set new" by (simp add: includes_single)
    then have "replaceAll str old new = literalReplaceAll str old new"
      by (intro replaceAll_literal[OF ne] getSubstitution_no_dollar)
    with False ne inc show ?thesis by (simp add: safeLiteralReplace_def)
  qed
qed

text \<open>The loop of \<open>countOccurrences\<close> counts the occurrences that literal replacement
  replaces, and replacing at least one occurrence by a different text changes the
  content.\<close>

lemma countLoop_countLiteral:
  assumes ne: "old \<noteq> []"
  shows "p \<le> length s \<Longrightarrow>
     countLoop s old (indexOfFrom s old p) n = n + countLiteral (drop p s) old"
proof (induction "length s - p" arbitrary: p n rule: less_induct)
  case less
  show ?case
  proof (cases "indexOf (drop p s) old")
    case None
    then have "indexOfFrom s old p = None" by (simp add: indexOfFrom_def)
    with None show ?thesis
      by (simp add: countLoop.simps[of s old None] countLiteral_no_occurrence)
  next
    case (Some i)
    define q where "q = i + p"
    from indexOf_bounds[OF Some] less.prems have bnd: "q + length old \<le> length s"
      unfolding q_def by (simp only: length_drop) arith
    from Some less.prems have iof: "indexOfFrom s old p = Some q"
      by (simp add: indexOfFrom_def q_def min_def)
    from ne have "0 < length old" by simp
    with bnd less.prems have "length s - (q + length old) < length s - p"
      unfolding q_def by arith
    from less.hyps[OF this bnd, of "n + 1"]
    have IH: "countLoop s old (indexOfFrom s old (q + length old)) (n + 1)
            = n + 1 + countLiteral (drop (q + length old) s) old" .
    have "countLoop s old (indexOfFrom s old p) n
          = countLoop s old (indexOfFrom s old (q + length old)) (n + 1)"
      by (simp add: iof countLoop.simps[of s old "Some q"] ne)
    also note IH
    also have "n + 1 + countLiteral (drop (q + length old) s) old = n + countLiteral (drop p s) old"
      using countLiteral_first[OF ne Some]
      by (simp add: q_def add.commute add.left_commute)
    finally show ?thesis .
  qed
qed

lemma countOccurrences_countLiteral: "countOccurrences s old = countLiteral s old"
proof (cases "old = []")
  case True
  have "countLiteral s [] = 0" by (induction s) simp_all
  with True show ?thesis by (simp add: countOccurrences_def)
next
  case False
  have "indexOfFrom s old 0 = indexOf s old" by (simp add: indexOfFrom_def option.map_ident)
  with countLoop_countLiteral[OF False, of 0 s 0] False show ?thesis
    by (simp add: countOccurrences_def)
qed

lemma literalReplaceAll_length:
  "length (literalReplaceAll s old new) + countLiteral s old * length old
     = length s + countLiteral s old * length new"
proof (induction s old new rule: literalReplaceAll.induct)
  case (1 old new)
  show ?case by simp
next
  case (2 c cs old new)
  show ?case
  proof (cases "old \<noteq> [] \<and> prefix old (c # cs)")
    case True
    from True have "prefix old (c # cs)" by simp
    from prefix_length_le[OF this] have le: "length old \<le> length (c # cs)" .
    from "2.IH"(1)[OF True] True le show ?thesis by simp
  next
    case False
    from "2.IH"(2)[OF False] False show ?thesis by auto
  qed
qed

lemma literalReplaceAll_changes:
  assumes ne: "old \<noteq> []" and diff: "old \<noteq> new" and pos: "0 < countLiteral s old"
  shows "literalReplaceAll s old new \<noteq> s"
proof
  assume eq: "literalReplaceAll s old new = s"
  from literalReplaceAll_length[of s old new] eq
  have "countLiteral s old * length old = countLiteral s old * length new" by simp
  with pos have len: "length old = length new" by simp
  from pos obtain i where i: "indexOf s old = Some i"
    by (cases "indexOf s old") (auto simp: countLiteral_no_occurrence)
  from indexOf_bounds[OF i] obtain v where v: "drop i s = old @ v" by (auto simp: prefix_def)
  have "s = take i s @ drop i s" by simp
  with v have s: "s = take i s @ old @ v" by simp
  from literalReplaceAll_first[OF ne i, of new] eq
  have "s = take i s @ new @ literalReplaceAll (drop (i + length old) s) old new" by simp
  with s have "take i s @ old @ v = take i s @ new @ literalReplaceAll (drop (i + length old) s) old new"
    by simp
  then have "old @ v = new @ literalReplaceAll (drop (i + length old) s) old new" by simp
  with len have "old = new" by (simp add: append_eq_append_conv)
  with diff show False by simp
qed

lemma normalizeToLF_nonempty: "s \<noteq> [] \<Longrightarrow> normalizeToLF s \<noteq> []"
  by (induction s rule: normalizeToLF.induct) auto

section \<open>The line-ending codec round trip\<close>

lemma includes_crlf_Cons2:
  "includes_str (c # d # r) [CR, LF] \<longleftrightarrow> (c = CR \<and> d = LF) \<or> includes_str (d # r) [CR, LF]"
  by (auto simp: includes_str_def)

lemma normalize_no_crlf: "\<not> includes_str s [CR, LF] \<Longrightarrow> normalizeToLF s = s"
proof (induction s rule: normalizeToLF.induct)
  case (3 c d r)
  then show ?case by (auto simp: includes_crlf_Cons2)
qed simp_all

lemma restore_normalize_crlf: "bare_lf_free s \<Longrightarrow> restoreLineEnding (normalizeToLF s) CRLF = s"
  by (induction s rule: normalizeToLF.induct) auto

text \<open>
  Claim C6, as amended. For every raw content with no CR outside a pair CR LF and,
  when it contains a pair CR LF, no LF outside such a pair, restoring the detected line
  ending after normalisation gives the raw content back; the detected line ending is
  CRLF exactly when the raw content contains a pair CR LF, and LF otherwise.
\<close>

theorem line_ending_roundtrip:
  assumes "lone_cr_free raw"
    and "includes_str raw [CR, LF] \<longrightarrow> bare_lf_free raw"
  shows "restoreLineEnding (normalizeToLF raw) (detectLineEnding raw) = raw
       \<and> (detectLineEnding raw = CRLF \<longleftrightarrow> (\<exists>u v. raw = u @ [CR, LF] @ v))
       \<and> (detectLineEnding raw = LFonly \<longleftrightarrow> \<not> (\<exists>u v. raw = u @ [CR, LF] @ v))"
proof -
  have occ: "includes_str raw [CR, LF] \<longleftrightarrow> (\<exists>u v. raw = u @ [CR, LF] @ v)"
    by (rule includes_str_iff)
  have rt: "restoreLineEnding (normalizeToLF raw) (detectLineEnding raw) = raw"
  proof (cases "includes_str raw [CR, LF]")
    case True
    with assms(2) have "bare_lf_free raw" by simp
    with True show ?thesis
      by (simp only: detectLineEnding_def if_True restore_normalize_crlf)
  next
    case False
    then show ?thesis by (simp add: detectLineEnding_def normalize_no_crlf)
  qed
  have d1: "detectLineEnding raw = CRLF \<longleftrightarrow> includes_str raw [CR, LF]"
    by (simp add: detectLineEnding_def)
  have d2: "detectLineEnding raw = LFonly \<longleftrightarrow> \<not> includes_str raw [CR, LF]"
    by (simp add: detectLineEnding_def)
  from rt d1 d2 occ show ?thesis by simp
qed

theorem line_ending_roundtrip_witness:
  "lone_cr_free [CHR ''a'', CR, LF, CHR ''b'', CR, LF]
   \<and> bare_lf_free [CHR ''a'', CR, LF, CHR ''b'', CR, LF]
   \<and> restoreLineEnding (normalizeToLF [CHR ''a'', CR, LF, CHR ''b'', CR, LF])
        (detectLineEnding [CHR ''a'', CR, LF, CHR ''b'', CR, LF]) = [CHR ''a'', CR, LF, CHR ''b'', CR, LF]
   \<and> detectLineEnding [CHR ''a'', CR, LF, CHR ''b'', CR, LF] = CRLF"
  using line_ending_roundtrip[of "[CHR ''a'', CR, LF, CHR ''b'', CR, LF]"]
  by (simp add: detectLineEnding_def includes_str_def)

text \<open>
  Claim C6 as stated fails on content that mixes the two line endings: the content
  \<open>a CR LF b LF\<close> has no CR outside a pair, is detected as CRLF, and comes back as
  \<open>a CR LF b CR LF\<close>.
\<close>

theorem line_ending_roundtrip_counterexample:
  "lone_cr_free [CHR ''a'', CR, LF, CHR ''b'', LF]
   \<and> restoreLineEnding (normalizeToLF [CHR ''a'', CR, LF, CHR ''b'', LF])
        (detectLineEnding [CHR ''a'', CR, LF, CHR ''b'', LF]) \<noteq> [CHR ''a'', CR, LF, CHR ''b'', LF]"
  by (simp add: detectLineEnding_def includes_str_def)

section \<open>The single-edit tool: properties\<close>

lemma trim_blank: "trim s \<noteq> [] \<Longrightarrow> s \<noteq> []"
  by (auto simp: trim_def)

lemma editMode_resolved:
  assumes "\<not> aborted 1" "\<not> aborted 2"
    and "files fs p = Some rawContent"
    and "normalizeToLF (old_string args) \<noteq> normalizeToLF (new_string args)"
  shows "editMode aborted args expectedCount p fs =
     (case threeTierMatch (file_path args) (normalizeToLF rawContent)
             (normalizeToLF (old_string args)) (normalizeToLF (new_string args)) expectedCount of
        Inl err \<Rightarrow> (Inl err, fs\<lparr>trace := trace fs @ [Access p, ReadFile p]\<rparr>)
      | Inr (resultContentLF, matchStrategy) \<Rightarrow>
          if resultContentLF = normalizeToLF rawContent
          then (Inr (NoChangesNeeded (file_path args)), fs\<lparr>trace := trace fs @ [Access p, ReadFile p]\<rparr>)
          else (Inr (SuccessfullyEdited (file_path args) matchStrategy expectedCount resultContentLF),
                fs\<lparr>files := (files fs)(p \<mapsto> restoreLineEnding resultContentLF (detectLineEnding rawContent)),
                   trace := trace fs @ [Access p, ReadFile p,
                     WriteFile p (restoreLineEnding resultContentLF (detectLineEnding rawContent))]\<rparr>))"
  using assms
  by (simp add: editMode_def access_def readFile_def writeFile_def Let_def
        split: sum.splits prod.splits)

lemma codeEditExecute_edit:
  assumes "\<not> aborted 0" "trim (file_path args) \<noteq> []" "old_string args \<noteq> []"
  shows "codeEditExecute env aborted args fs =
     editMode aborted args (expectedCountOf (expected_replacements args))
       (resolveToCwd env (file_path args)) fs"
  using assms trim_blank[of "file_path args"] by (simp add: codeEditExecute_def Let_def)

text \<open>
  Claim C1. A call that reaches the matching (not aborted, a non-blank path, a non-empty
  \<open>old_string\<close>, an existing file, \<open>old_string\<close> and \<open>new_string\<close> different
  after normalisation) and whose count of exact occurrences in the normalised content
  equals the expected count succeeds with the exact strategy: the new content is the
  literal replacement of every occurrence, the replacement text copied as it is whatever
  dollar sequences it contains, the number of occurrences replaced is the expected count,
  and the file is written with that content in its original line ending. The outcome is
  fixed by the exact strategy alone, whatever the two relaxed patterns would match.
\<close>

theorem exact_count_commits_literally:
  fixes env :: Env and args :: CodeEditInput
  defines "p \<equiv> resolveToCwd env (file_path args)"
    and "oldLF \<equiv> normalizeToLF (old_string args)"
    and "newLF \<equiv> normalizeToLF (new_string args)"
    and "expectedCount \<equiv> expectedCountOf (expected_replacements args)"
  assumes na0: "\<not> aborted 0" and na1: "\<not> aborted 1" and na2: "\<not> aborted 2"
    and path: "trim (file_path args) \<noteq> []"
    and old: "old_string args \<noteq> []"
    and fileAt: "files fs p = Some rawContent"
    and differ: "oldLF \<noteq> newLF"
    and count: "int (countOccurrences (normalizeToLF rawContent) oldLF) = expectedCount"
  shows "codeEditExecute env aborted args fs =
       (Inr (SuccessfullyEdited (file_path args) Exact expectedCount
               (literalReplaceAll (normalizeToLF rawContent) oldLF newLF)),
        fs\<lparr>files := (files fs)(p \<mapsto>
               restoreLineEnding (literalReplaceAll (normalizeToLF rawContent) oldLF newLF)
                 (detectLineEnding rawContent)),
           trace := trace fs @ [Access p, ReadFile p,
             WriteFile p (restoreLineEnding (literalReplaceAll (normalizeToLF rawContent) oldLF newLF)
                 (detectLineEnding rawContent))]\<rparr>)
     \<and> threeTierMatch (file_path args) (normalizeToLF rawContent) oldLF newLF expectedCount
         = Inr (literalReplaceAll (normalizeToLF rawContent) oldLF newLF, Exact)
     \<and> int (countLiteral (normalizeToLF rawContent) oldLF) = expectedCount"
proof -
  have ne: "oldLF \<noteq> []"
    using old by (simp add: oldLF_def normalizeToLF_nonempty)
  have cnt: "int (countLiteral (normalizeToLF rawContent) oldLF) = expectedCount"
    using count by (simp add: countOccurrences_countLiteral)
  have "1 \<le> expectedCount" by (simp add: expectedCount_def expectedCountOf_def)
  with cnt have pos: "0 < countLiteral (normalizeToLF rawContent) oldLF" by simp
  have tier: "threeTierMatch (file_path args) (normalizeToLF rawContent) oldLF newLF expectedCount
         = Inr (literalReplaceAll (normalizeToLF rawContent) oldLF newLF, Exact)"
    using count by (simp add: threeTierMatch_def Let_def safeLiteralReplace_literal)
  have chg: "literalReplaceAll (normalizeToLF rawContent) oldLF newLF \<noteq> normalizeToLF rawContent"
    by (rule literalReplaceAll_changes[OF ne differ pos])
  have "codeEditExecute env aborted args fs = editMode aborted args expectedCount p fs"
    using codeEditExecute_edit[of aborted args env fs] na0 path old
    by (simp add: p_def expectedCount_def)
  also have "\<dots> = (Inr (SuccessfullyEdited (file_path args) Exact expectedCount
               (literalReplaceAll (normalizeToLF rawContent) oldLF newLF)),
        fs\<lparr>files := (files fs)(p \<mapsto>
               restoreLineEnding (literalReplaceAll (normalizeToLF rawContent) oldLF newLF)
                 (detectLineEnding rawContent)),
           trace := trace fs @ [Access p, ReadFile p,
             WriteFile p (restoreLineEnding (literalReplaceAll (normalizeToLF rawContent) oldLF newLF)
                 (detectLineEnding rawContent))]\<rparr>)"
    using editMode_resolved[of aborted fs p rawContent args expectedCount] na1 na2 fileAt differ tier chg
    by (simp add: oldLF_def newLF_def)
  finally show ?thesis using tier cnt by simp
qed


theorem exact_count_commits_literally_witness:
  "\<not> neverAborted 0 \<and> \<not> neverAborted 1 \<and> \<not> neverAborted 2
   \<and> trim ''f'' \<noteq> [] \<and> ''b'' \<noteq> []
   \<and> files (exampleFs ''abcb'') ''f'' = Some ''abcb''
   \<and> normalizeToLF ''b'' \<noteq> normalizeToLF ''$&$1''
   \<and> int (countOccurrences (normalizeToLF ''abcb'') (normalizeToLF ''b'')) = expectedCountOf (Some 2)
   \<and> files (snd (codeEditExecute exampleEnv neverAborted
         \<lparr>file_path = ''f'', old_string = ''b'', new_string = ''$&$1'',
          expected_replacements = Some 2\<rparr> (exampleFs ''abcb''))) ''f'' = Some ''a$&$1c$&$1''"
proof -
  let ?args = "\<lparr>file_path = ''f'', old_string = ''b'', new_string = ''$&$1'',
          expected_replacements = Some 2\<rparr>"
  have h0: "\<not> neverAborted 0" and h1: "\<not> neverAborted 1" and h2: "\<not> neverAborted 2"
    by (simp_all add: neverAborted_def)
  have h3: "trim (file_path ?args) \<noteq> []" by (simp add: trim_def is_space_def)
  have h4: "old_string ?args \<noteq> []" by simp
  have h5: "files (exampleFs ''abcb'') (resolveToCwd exampleEnv (file_path ?args)) = Some ''abcb''"
    by (simp add: exampleFs_def exampleEnv_def)
  have h6: "normalizeToLF (old_string ?args) \<noteq> normalizeToLF (new_string ?args)" by simp
  have h7: "int (countOccurrences (normalizeToLF ''abcb'') (normalizeToLF (old_string ?args)))
              = expectedCountOf (expected_replacements ?args)"
    by code_simp
  from exact_count_commits_literally[where aborted = neverAborted and args = ?args
      and env = exampleEnv and fs = "exampleFs ''abcb''" and rawContent = "''abcb''",
      OF h0 h1 h2 h3 h4 h5 h6 h7] h0 h1 h2 h3 h5 h6 h7
  show ?thesis
    by (simp add: exampleEnv_def detectLineEnding_def includes_str_def)
qed

text \<open>
  Claim C3. A call that reaches the matching and in which none of the three counts (exact,
  whitespace-tolerant, token-based) equals the expected count fails, without writing, and
  the error is "no match found" exactly when the three counts are zero, the count mismatch
  naming the exact count exactly when the exact count is not zero (it differs from the
  expected count), and otherwise the count mismatch naming the two relaxed counts.
\<close>

theorem mismatch_diagnostics:
  fixes env :: Env and args :: CodeEditInput and rawContent :: string
  defines "p \<equiv> resolveToCwd env (file_path args)"
    and "oldLF \<equiv> normalizeToLF (old_string args)"
    and "newLF \<equiv> normalizeToLF (new_string args)"
    and "expectedCount \<equiv> expectedCountOf (expected_replacements args)"
  defines "exactCount \<equiv> countOccurrences (normalizeToLF rawContent) oldLF"
    and "wsCount \<equiv> countRegexMatches (normalizeToLF rawContent) (buildWhitespaceTolerantRegex oldLF)"
    and "tokenCount \<equiv> countRegexMatches (normalizeToLF rawContent) (buildTokenRegex oldLF)"
  assumes na0: "\<not> aborted 0" and na1: "\<not> aborted 1" and na2: "\<not> aborted 2"
    and path: "trim (file_path args) \<noteq> []"
    and old: "old_string args \<noteq> []"
    and fileAt: "files fs p = Some rawContent"
    and differ: "oldLF \<noteq> newLF"
    and noExact: "int exactCount \<noteq> expectedCount"
    and noWs: "int wsCount \<noteq> expectedCount"
    and noToken: "int tokenCount \<noteq> expectedCount"
  shows "codeEditExecute env aborted args fs =
       (Inl (if exactCount = 0 \<and> wsCount = 0 \<and> tokenCount = 0
             then NoMatchFound (file_path args)
             else if exactCount \<noteq> 0
             then ExactCountMismatch (file_path args) expectedCount exactCount
             else RelaxedCountMismatch (file_path args) expectedCount wsCount tokenCount),
        fs\<lparr>trace := trace fs @ [Access p, ReadFile p]\<rparr>)
     \<and> (fst (codeEditExecute env aborted args fs) = Inl (NoMatchFound (file_path args))
          \<longleftrightarrow> exactCount = 0 \<and> wsCount = 0 \<and> tokenCount = 0)
     \<and> (fst (codeEditExecute env aborted args fs)
            = Inl (ExactCountMismatch (file_path args) expectedCount exactCount)
          \<longleftrightarrow> exactCount \<noteq> 0 \<and> int exactCount \<noteq> expectedCount)
     \<and> (fst (codeEditExecute env aborted args fs)
            = Inl (RelaxedCountMismatch (file_path args) expectedCount wsCount tokenCount)
          \<longleftrightarrow> exactCount = 0 \<and> (wsCount \<noteq> 0 \<or> tokenCount \<noteq> 0))"
proof -
  have tier: "threeTierMatch (file_path args) (normalizeToLF rawContent) oldLF newLF expectedCount
      = Inl (if exactCount = 0 \<and> wsCount = 0 \<and> tokenCount = 0
             then NoMatchFound (file_path args)
             else if exactCount \<noteq> 0
             then ExactCountMismatch (file_path args) expectedCount exactCount
             else RelaxedCountMismatch (file_path args) expectedCount wsCount tokenCount)"
    using noExact noWs noToken
    by (simp add: threeTierMatch_def Let_def exactCount_def wsCount_def tokenCount_def)
  have "codeEditExecute env aborted args fs = editMode aborted args expectedCount p fs"
    using codeEditExecute_edit[of aborted args env fs] na0 path old
    by (simp add: p_def expectedCount_def)
  also have "\<dots> = (Inl (if exactCount = 0 \<and> wsCount = 0 \<and> tokenCount = 0
             then NoMatchFound (file_path args)
             else if exactCount \<noteq> 0
             then ExactCountMismatch (file_path args) expectedCount exactCount
             else RelaxedCountMismatch (file_path args) expectedCount wsCount tokenCount),
        fs\<lparr>trace := trace fs @ [Access p, ReadFile p]\<rparr>)"
    using editMode_resolved[of aborted fs p rawContent args expectedCount] na1 na2 fileAt differ
    by (simp add: oldLF_def[symmetric] newLF_def[symmetric] tier)
  finally show ?thesis using noExact by auto
qed

theorem mismatch_diagnostics_witness:
  "\<not> neverAborted 0 \<and> \<not> neverAborted 1 \<and> \<not> neverAborted 2
   \<and> trim ''f'' \<noteq> [] \<and> ''a  b'' \<noteq> []
   \<and> files (exampleFs ''a b a b'') ''f'' = Some ''a b a b''
   \<and> normalizeToLF ''a  b'' \<noteq> normalizeToLF ''c''
   \<and> int (countOccurrences ''a b a b'' ''a  b'') \<noteq> 1
   \<and> int (countRegexMatches ''a b a b'' (buildWhitespaceTolerantRegex ''a  b'')) \<noteq> 1
   \<and> int (countRegexMatches ''a b a b'' (buildTokenRegex ''a  b'')) \<noteq> 1
   \<and> codeEditExecute exampleEnv neverAborted
         \<lparr>file_path = ''f'', old_string = ''a  b'', new_string = ''c'',
          expected_replacements = None\<rparr> (exampleFs ''a b a b'')
       = (Inl (RelaxedCountMismatch ''f'' 1 2 2),
          \<lparr>files = [''f'' \<mapsto> ''a b a b''], trace = [Access ''f'', ReadFile ''f'']\<rparr>)"
proof -
  let ?args = "\<lparr>file_path = ''f'', old_string = ''a  b'', new_string = ''c'',
          expected_replacements = None\<rparr>"
  have h0: "\<not> neverAborted 0" and h1: "\<not> neverAborted 1" and h2: "\<not> neverAborted 2"
    by (simp_all add: neverAborted_def)
  have h3: "trim (file_path ?args) \<noteq> []" by (simp add: trim_def is_space_def)
  have h4: "old_string ?args \<noteq> []" by simp
  have h5: "files (exampleFs ''a b a b'') (resolveToCwd exampleEnv (file_path ?args)) = Some ''a b a b''"
    by (simp add: exampleFs_def exampleEnv_def)
  have h6: "normalizeToLF (old_string ?args) \<noteq> normalizeToLF (new_string ?args)" by simp
  have c1: "countOccurrences ''a b a b'' ''a  b'' = 0" by code_simp
  have c2: "countRegexMatches ''a b a b'' (buildWhitespaceTolerantRegex ''a  b'') = 2" by code_simp
  have c3: "countRegexMatches ''a b a b'' (buildTokenRegex ''a  b'') = 2" by code_simp
  have n: "normalizeToLF ''a b a b'' = ''a b a b''" "normalizeToLF ''a  b'' = ''a  b''" by simp_all
  have e: "expectedCountOf None = 1" by (simp add: expectedCountOf_def)
  have h7: "int (countOccurrences (normalizeToLF ''a b a b'') (normalizeToLF (old_string ?args)))
              \<noteq> expectedCountOf (expected_replacements ?args)"
    by (simp add: c1 e)
  have h8: "int (countRegexMatches (normalizeToLF ''a b a b'')
                 (buildWhitespaceTolerantRegex (normalizeToLF (old_string ?args))))
              \<noteq> expectedCountOf (expected_replacements ?args)"
    by (simp add: c2 e)
  have h9: "int (countRegexMatches (normalizeToLF ''a b a b'')
                 (buildTokenRegex (normalizeToLF (old_string ?args))))
              \<noteq> expectedCountOf (expected_replacements ?args)"
    by (simp add: c3 e)
  from mismatch_diagnostics[where aborted = neverAborted and args = ?args
      and env = exampleEnv and fs = "exampleFs ''a b a b''" and rawContent = "''a b a b''",
      OF h0 h1 h2 h3 h4 h5 h6 h7 h8 h9]
  have "codeEditExecute exampleEnv neverAborted ?args (exampleFs ''a b a b'')
       = (Inl (RelaxedCountMismatch ''f'' 1 2 2),
          \<lparr>files = [''f'' \<mapsto> ''a b a b''], trace = [Access ''f'', ReadFile ''f'']\<rparr>)"
    by (simp add: c1 c2 c3 e exampleEnv_def exampleFs_def)
  with h0 h1 h2 h3 h5 c1 c2 c3 show ?thesis
    by (simp add: exampleEnv_def)
qed

text \<open>
  Claim C8. A call with an empty \<open>old_string\<close> that is not aborted on entry and names
  a non-blank path is in create-new-file mode: when the target exists it fails with
  "already exists" after the existence check alone, with no write; when the target does
  not exist the parent directory is made and \<open>new_string\<close> is written as it is as the
  whole content. The file is not read and no matching takes place: the outcome depends
  neither on \<open>expected_replacements\<close> nor on any content.
\<close>

theorem create_file_mode:
  fixes env :: Env and args :: CodeEditInput
  defines "p \<equiv> resolveToCwd env (file_path args)"
  assumes na0: "\<not> aborted 0"
    and path: "trim (file_path args) \<noteq> []"
    and old: "old_string args = []"
  shows "codeEditExecute env aborted args fs =
      (if files fs p \<noteq> None
       then (Inl (FileAlreadyExists (file_path args)), fs\<lparr>trace := trace fs @ [Access p]\<rparr>)
       else (Inr (CreatedNewFile (file_path args) (length (splitLines (new_string args)))
                    (new_string args)),
             fs\<lparr>files := (files fs)(p \<mapsto> new_string args),
                trace := trace fs @ [Access p, Mkdir (dirname env p), WriteFile p (new_string args)]\<rparr>))"
  using na0 path old trim_blank[of "file_path args"]
  by (simp add: codeEditExecute_def createFileMode_def access_def mkdir_def writeFile_def
        Let_def p_def)

theorem create_file_mode_witness:
  "\<not> neverAborted 0 \<and> trim ''f'' \<noteq> [] \<and> trim ''g'' \<noteq> []
   \<and> codeEditExecute exampleEnv neverAborted
        \<lparr>file_path = ''f'', old_string = [], new_string = ''$1 x'', expected_replacements = Some 5\<rparr>
        (exampleFs ''abc'')
       = (Inl (FileAlreadyExists ''f''), \<lparr>files = [''f'' \<mapsto> ''abc''], trace = [Access ''f'']\<rparr>)
   \<and> codeEditExecute exampleEnv neverAborted
        \<lparr>file_path = ''g'', old_string = [], new_string = ''$1 x'', expected_replacements = Some 5\<rparr>
        (exampleFs ''abc'')
       = (Inr (CreatedNewFile ''g'' 1 ''$1 x''),
          \<lparr>files = [''f'' \<mapsto> ''abc'', ''g'' \<mapsto> ''$1 x''],
           trace = [Access ''g'', Mkdir ''.'', WriteFile ''g'' ''$1 x'']\<rparr>)"
proof -
  let ?f = "\<lparr>file_path = ''f'', old_string = [], new_string = ''$1 x'', expected_replacements = Some 5\<rparr>"
  let ?g = "\<lparr>file_path = ''g'', old_string = [], new_string = ''$1 x'', expected_replacements = Some 5\<rparr>"
  have h0: "\<not> neverAborted 0" by (simp add: neverAborted_def)
  have hf: "trim (file_path ?f) \<noteq> []" and hg: "trim (file_path ?g) \<noteq> []"
    by (simp_all add: trim_def is_space_def)
  have of: "old_string ?f = []" and og: "old_string ?g = []" by simp_all
  from create_file_mode[where aborted = neverAborted and args = ?f and env = exampleEnv
         and fs = "exampleFs ''abc''", OF h0 hf of]
       create_file_mode[where aborted = neverAborted and args = ?g and env = exampleEnv
         and fs = "exampleFs ''abc''", OF h0 hg og]
       h0 hf hg
  show ?thesis
    by (simp add: exampleEnv_def exampleFs_def splitLines_def)
qed

text \<open>
  Claim C9, as amended. A call with a non-empty \<open>old_string\<close> on an existing file,
  whose \<open>old_string\<close> and \<open>new_string\<close> are equal after normalisation, is rejected as
  a no-op once the file has been checked for existence and read, and before any write: the
  content of every file is unchanged, and the trace gains the existence check and the read.
\<close>

theorem identical_strings_rejected_after_read:
  fixes env :: Env and args :: CodeEditInput
  defines "p \<equiv> resolveToCwd env (file_path args)"
  assumes na0: "\<not> aborted 0" and na1: "\<not> aborted 1"
    and path: "trim (file_path args) \<noteq> []"
    and old: "old_string args \<noteq> []"
    and fileAt: "files fs p = Some rawContent"
    and same: "normalizeToLF (old_string args) = normalizeToLF (new_string args)"
  shows "codeEditExecute env aborted args fs =
      (Inl NoChangesToApply, fs\<lparr>trace := trace fs @ [Access p, ReadFile p]\<rparr>)"
proof -
  have "codeEditExecute env aborted args fs
          = editMode aborted args (expectedCountOf (expected_replacements args)) p fs"
    using codeEditExecute_edit[of aborted args env fs] na0 path old by (simp add: p_def)
  also have "\<dots> = (Inl NoChangesToApply, fs\<lparr>trace := trace fs @ [Access p, ReadFile p]\<rparr>)"
    using na1 fileAt same by (simp add: editMode_def access_def readFile_def Let_def)
  finally show ?thesis .
qed

theorem identical_strings_rejected_after_read_witness:
  "\<not> neverAborted 0 \<and> \<not> neverAborted 1 \<and> trim ''f'' \<noteq> [] \<and> ''x'' \<noteq> []
   \<and> files (exampleFs ''abc'') ''f'' = Some ''abc''
   \<and> normalizeToLF [CHR ''x'', CR, LF] = normalizeToLF [CHR ''x'', LF]
   \<and> codeEditExecute exampleEnv neverAborted
        \<lparr>file_path = ''f'', old_string = [CHR ''x'', CR, LF], new_string = [CHR ''x'', LF],
         expected_replacements = None\<rparr> (exampleFs ''abc'')
       = (Inl NoChangesToApply,
          \<lparr>files = [''f'' \<mapsto> ''abc''], trace = [Access ''f'', ReadFile ''f'']\<rparr>)"
proof -
  let ?a = "\<lparr>file_path = ''f'', old_string = [CHR ''x'', CR, LF], new_string = [CHR ''x'', LF],
         expected_replacements = None\<rparr>"
  have h0: "\<not> neverAborted 0" and h1: "\<not> neverAborted 1" by (simp_all add: neverAborted_def)
  have h2: "trim (file_path ?a) \<noteq> []" by (simp add: trim_def is_space_def)
  have h3: "old_string ?a \<noteq> []" by simp
  have h4: "files (exampleFs ''abc'') (resolveToCwd exampleEnv (file_path ?a)) = Some ''abc''"
    by (simp add: exampleFs_def exampleEnv_def)
  have h5: "normalizeToLF (old_string ?a) = normalizeToLF (new_string ?a)" by simp
  from identical_strings_rejected_after_read[where aborted = neverAborted and args = ?a
         and env = exampleEnv and fs = "exampleFs ''abc''" and rawContent = "''abc''",
         OF h0 h1 h2 h3 h4 h5] h0 h1 h2 h4
  show ?thesis by (simp add: exampleEnv_def exampleFs_def)
qed

text \<open>
  Claim C9 as stated fails: the comparison of the two strings comes after the read, so a
  rejected call has read the target.
\<close>

theorem identical_strings_counterexample:
  "normalizeToLF ''x'' = normalizeToLF ''x''
   \<and> ReadFile ''f'' \<in> set (trace (snd (codeEditExecute exampleEnv neverAborted
        \<lparr>file_path = ''f'', old_string = ''x'', new_string = ''x'',
         expected_replacements = None\<rparr> (exampleFs ''abc''))))"
  by (simp add: codeEditExecute_def editMode_def access_def readFile_def Let_def
        exampleEnv_def exampleFs_def neverAborted_def trim_def is_space_def)

text \<open>
  Claim C10. In a call that reaches the matching, the number each of the three counts is
  compared with, and the number the diagnostics and the response name, is
  \<open>max(1, expected_replacements)\<close>, with 1 for an absent value: the exact strategy is
  taken when the exact count equals that number, else the whitespace-tolerant one when its
  count does, else the token-based one when its count does, else the call fails with the
  diagnostic. No call is rejected for the value of \<open>expected_replacements\<close>: every call
  has the outcome of the call with the clamped value, so the value 0 and the negative
  values behave as the value 1, as the absent value does.
\<close>

theorem expected_count_clamped:
  fixes env :: Env and args :: CodeEditInput and rawContent :: string and fs :: FileSystem
  defines "E \<equiv> max 1 (case expected_replacements args of None \<Rightarrow> 1 | Some n \<Rightarrow> n)"
    and "p \<equiv> resolveToCwd env (file_path args)"
    and "contentLF \<equiv> normalizeToLF rawContent"
    and "oldLF \<equiv> normalizeToLF (old_string args)"
    and "newLF \<equiv> normalizeToLF (new_string args)"
  defines "exactCount \<equiv> countOccurrences contentLF oldLF"
    and "wsCount \<equiv> countRegexMatches contentLF (buildWhitespaceTolerantRegex oldLF)"
    and "tokenCount \<equiv> countRegexMatches contentLF (buildTokenRegex oldLF)"
  defines "chosen \<equiv>
      (if int exactCount = E then Some (safeLiteralReplace contentLF oldLF newLF, Exact)
       else if int wsCount = E
       then Some (regexReplaceFn contentLF (buildWhitespaceTolerantRegex oldLF) newLF,
                  WhitespaceTolerant)
       else if int tokenCount = E
       then Some (regexReplaceFn contentLF (buildTokenRegex oldLF) newLF, TokenBased)
       else None)"
  shows "(\<not> aborted 0 \<and> \<not> aborted 1 \<and> \<not> aborted 2 \<and> trim (file_path args) \<noteq> []
          \<and> old_string args \<noteq> [] \<and> files fs p = Some rawContent \<and> oldLF \<noteq> newLF
        \<longrightarrow> codeEditExecute env aborted args fs =
            (case chosen of
               None \<Rightarrow>
                 (Inl (if exactCount = 0 \<and> wsCount = 0 \<and> tokenCount = 0
                       then NoMatchFound (file_path args)
                       else if exactCount \<noteq> 0
                       then ExactCountMismatch (file_path args) E exactCount
                       else RelaxedCountMismatch (file_path args) E wsCount tokenCount),
                  fs\<lparr>trace := trace fs @ [Access p, ReadFile p]\<rparr>)
             | Some (resultContentLF, matchStrategy) \<Rightarrow>
                 if resultContentLF = contentLF
                 then (Inr (NoChangesNeeded (file_path args)),
                       fs\<lparr>trace := trace fs @ [Access p, ReadFile p]\<rparr>)
                 else (Inr (SuccessfullyEdited (file_path args) matchStrategy E resultContentLF),
                       fs\<lparr>files := (files fs)(p \<mapsto>
                              restoreLineEnding resultContentLF (detectLineEnding rawContent)),
                          trace := trace fs @ [Access p, ReadFile p,
                            WriteFile p (restoreLineEnding resultContentLF
                                           (detectLineEnding rawContent))]\<rparr>)))
     \<and> codeEditExecute env aborted args fs
         = codeEditExecute env aborted (args\<lparr>expected_replacements := Some E\<rparr>) fs
     \<and> codeEditExecute env aborted (args\<lparr>expected_replacements := None\<rparr>) fs
         = codeEditExecute env aborted (args\<lparr>expected_replacements := Some 1\<rparr>) fs
     \<and> codeEditExecute env aborted (args\<lparr>expected_replacements := Some (- int k)\<rparr>) fs
         = codeEditExecute env aborted (args\<lparr>expected_replacements := Some 1\<rparr>) fs"
proof -
  have EE: "expectedCountOf (expected_replacements args) = E"
    by (simp add: expectedCountOf_def E_def)
  have tier: "threeTierMatch (file_path args) contentLF oldLF newLF E =
      (case chosen of
         None \<Rightarrow>
           Inl (if exactCount = 0 \<and> wsCount = 0 \<and> tokenCount = 0
                then NoMatchFound (file_path args)
                else if exactCount \<noteq> 0
                then ExactCountMismatch (file_path args) E exactCount
                else RelaxedCountMismatch (file_path args) E wsCount tokenCount)
       | Some r \<Rightarrow> Inr r)"
    by (simp add: threeTierMatch_def Let_def chosen_def exactCount_def wsCount_def
          tokenCount_def)
  have main: "codeEditExecute env aborted args fs =
            (case chosen of
               None \<Rightarrow>
                 (Inl (if exactCount = 0 \<and> wsCount = 0 \<and> tokenCount = 0
                       then NoMatchFound (file_path args)
                       else if exactCount \<noteq> 0
                       then ExactCountMismatch (file_path args) E exactCount
                       else RelaxedCountMismatch (file_path args) E wsCount tokenCount),
                  fs\<lparr>trace := trace fs @ [Access p, ReadFile p]\<rparr>)
             | Some (resultContentLF, matchStrategy) \<Rightarrow>
                 if resultContentLF = contentLF
                 then (Inr (NoChangesNeeded (file_path args)),
                       fs\<lparr>trace := trace fs @ [Access p, ReadFile p]\<rparr>)
                 else (Inr (SuccessfullyEdited (file_path args) matchStrategy E resultContentLF),
                       fs\<lparr>files := (files fs)(p \<mapsto>
                              restoreLineEnding resultContentLF (detectLineEnding rawContent)),
                          trace := trace fs @ [Access p, ReadFile p,
                            WriteFile p (restoreLineEnding resultContentLF
                                           (detectLineEnding rawContent))]\<rparr>))"
    if reach: "\<not> aborted 0 \<and> \<not> aborted 1 \<and> \<not> aborted 2 \<and> trim (file_path args) \<noteq> []
          \<and> old_string args \<noteq> [] \<and> files fs p = Some rawContent \<and> oldLF \<noteq> newLF"
  proof -
    have "codeEditExecute env aborted args fs = editMode aborted args E p fs"
      using codeEditExecute_edit[of aborted args env fs] reach by (simp add: p_def EE)
    also have "\<dots> = (case threeTierMatch (file_path args) contentLF oldLF newLF E of
        Inl err \<Rightarrow> (Inl err, fs\<lparr>trace := trace fs @ [Access p, ReadFile p]\<rparr>)
      | Inr (resultContentLF, matchStrategy) \<Rightarrow>
          if resultContentLF = contentLF
          then (Inr (NoChangesNeeded (file_path args)), fs\<lparr>trace := trace fs @ [Access p, ReadFile p]\<rparr>)
          else (Inr (SuccessfullyEdited (file_path args) matchStrategy E resultContentLF),
                fs\<lparr>files := (files fs)(p \<mapsto> restoreLineEnding resultContentLF (detectLineEnding rawContent)),
                   trace := trace fs @ [Access p, ReadFile p,
                     WriteFile p (restoreLineEnding resultContentLF (detectLineEnding rawContent))]\<rparr>))"
      using editMode_resolved[of aborted fs p rawContent args E] reach
      unfolding contentLF_def oldLF_def newLF_def by simp
    finally show ?thesis by (simp add: tier split: option.splits)
  qed
  have idem: "expectedCountOf (Some (expectedCountOf e)) = expectedCountOf e" for e
    by (simp add: expectedCountOf_def)
  have dep: "codeEditExecute env aborted (a\<lparr>expected_replacements := e\<rparr>) fs
     = codeEditExecute env aborted (a\<lparr>expected_replacements := Some (expectedCountOf e)\<rparr>) fs"
    for e and a :: CodeEditInput
    by (simp add: codeEditExecute_def editMode_def createFileMode_def Let_def idem
          cong: prod.case_cong option.case_cong sum.case_cong if_cong)
  have c2: "codeEditExecute env aborted args fs
         = codeEditExecute env aborted (args\<lparr>expected_replacements := Some E\<rparr>) fs"
    using dep[where a = args and e = "expected_replacements args"] by (simp add: EE)
  have c3: "codeEditExecute env aborted (args\<lparr>expected_replacements := None\<rparr>) fs
         = codeEditExecute env aborted (args\<lparr>expected_replacements := Some 1\<rparr>) fs"
    using dep[where a = args and e = None] by (simp add: expectedCountOf_def)
  have c4: "codeEditExecute env aborted (args\<lparr>expected_replacements := Some (- int k)\<rparr>) fs
         = codeEditExecute env aborted (args\<lparr>expected_replacements := Some 1\<rparr>) fs"
    using dep[where a = args and e = "Some (- int k)"] by (simp add: expectedCountOf_def)
  from main c2 c3 c4 show ?thesis by blast
qed

theorem expected_count_clamped_witness:
  "\<not> neverAborted 0 \<and> \<not> neverAborted 1 \<and> \<not> neverAborted 2 \<and> trim ''f'' \<noteq> [] \<and> ''b'' \<noteq> []
   \<and> files (exampleFs ''abc'') ''f'' = Some ''abc''
   \<and> files (exampleFs ''abcb'') ''f'' = Some ''abcb''
   \<and> normalizeToLF ''b'' \<noteq> normalizeToLF ''X''
   \<and> codeEditExecute exampleEnv neverAborted
        \<lparr>file_path = ''f'', old_string = ''b'', new_string = ''X'', expected_replacements = Some 0\<rparr>
        (exampleFs ''abc'')
       = (Inr (SuccessfullyEdited ''f'' Exact 1 ''aXc''),
          \<lparr>files = [''f'' \<mapsto> ''aXc''],
           trace = [Access ''f'', ReadFile ''f'', WriteFile ''f'' ''aXc'']\<rparr>)
   \<and> codeEditExecute exampleEnv neverAborted
        \<lparr>file_path = ''f'', old_string = ''b'', new_string = ''X'', expected_replacements = Some (- 2)\<rparr>
        (exampleFs ''abcb'')
       = (Inl (ExactCountMismatch ''f'' 1 2),
          \<lparr>files = [''f'' \<mapsto> ''abcb''], trace = [Access ''f'', ReadFile ''f'']\<rparr>)
   \<and> codeEditExecute exampleEnv neverAborted
        \<lparr>file_path = ''f'', old_string = ''b'', new_string = ''X'', expected_replacements = Some 2\<rparr>
        (exampleFs ''abcb'')
       = (Inr (SuccessfullyEdited ''f'' Exact 2 ''aXcX''),
          \<lparr>files = [''f'' \<mapsto> ''aXcX''],
           trace = [Access ''f'', ReadFile ''f'', WriteFile ''f'' ''aXcX'']\<rparr>)"
proof -
  let ?a0 = "\<lparr>file_path = ''f'', old_string = ''b'', new_string = ''X'', expected_replacements = Some 0\<rparr>"
  let ?an = "\<lparr>file_path = ''f'', old_string = ''b'', new_string = ''X'', expected_replacements = Some (- 2)\<rparr>"
  let ?a2 = "\<lparr>file_path = ''f'', old_string = ''b'', new_string = ''X'', expected_replacements = Some 2\<rparr>"
  have h0: "\<not> neverAborted 0" and h1: "\<not> neverAborted 1" and h2: "\<not> neverAborted 2"
    by (simp_all add: neverAborted_def)
  have hp: "trim ''f'' \<noteq> []" by (simp add: trim_def is_space_def)
  have f1: "files (exampleFs ''abc'') ''f'' = Some ''abc''" by (simp add: exampleFs_def)
  have f2: "files (exampleFs ''abcb'') ''f'' = Some ''abcb''" by (simp add: exampleFs_def)
  have d: "normalizeToLF ''b'' \<noteq> normalizeToLF ''X''" by simp
  have c1: "countOccurrences ''abc'' ''b'' = 1" by code_simp
  have c2: "countOccurrences ''abcb'' ''b'' = 2" by code_simp
  have w2: "countRegexMatches ''abcb'' (buildWhitespaceTolerantRegex ''b'') = 2" by code_simp
  have t2: "countRegexMatches ''abcb'' (buildTokenRegex ''b'') = 2" by code_simp
  have r1: "safeLiteralReplace ''abc'' ''b'' ''X'' = ''aXc''" by code_simp
  have r2: "safeLiteralReplace ''abcb'' ''b'' ''X'' = ''aXcX''" by code_simp
  have e1: "detectLineEnding ''abc'' = LFonly" "detectLineEnding ''abcb'' = LFonly"
    by (simp_all add: detectLineEnding_def includes_str_def)
  have A0: "codeEditExecute exampleEnv neverAborted ?a0 (exampleFs ''abc'')
       = (Inr (SuccessfullyEdited ''f'' Exact 1 ''aXc''),
          \<lparr>files = [''f'' \<mapsto> ''aXc''],
           trace = [Access ''f'', ReadFile ''f'', WriteFile ''f'' ''aXc'']\<rparr>)"
    using expected_count_clamped[where aborted = neverAborted and args = ?a0 and env = exampleEnv
        and fs = "exampleFs ''abc''" and rawContent = "''abc''", THEN conjunct1] h0 h1 h2 hp
    by (simp add: c1 r1 e1 exampleEnv_def exampleFs_def)
  have An: "codeEditExecute exampleEnv neverAborted ?an (exampleFs ''abcb'')
       = (Inl (ExactCountMismatch ''f'' 1 2),
          \<lparr>files = [''f'' \<mapsto> ''abcb''], trace = [Access ''f'', ReadFile ''f'']\<rparr>)"
    using expected_count_clamped[where aborted = neverAborted and args = ?an and env = exampleEnv
        and fs = "exampleFs ''abcb''" and rawContent = "''abcb''", THEN conjunct1] h0 h1 h2 hp
    by (simp add: c2 w2 t2 exampleEnv_def exampleFs_def)
  have A2: "codeEditExecute exampleEnv neverAborted ?a2 (exampleFs ''abcb'')
       = (Inr (SuccessfullyEdited ''f'' Exact 2 ''aXcX''),
          \<lparr>files = [''f'' \<mapsto> ''aXcX''],
           trace = [Access ''f'', ReadFile ''f'', WriteFile ''f'' ''aXcX'']\<rparr>)"
    using expected_count_clamped[where aborted = neverAborted and args = ?a2 and env = exampleEnv
        and fs = "exampleFs ''abcb''" and rawContent = "''abcb''", THEN conjunct1] h0 h1 h2 hp
    by (simp add: c2 r2 e1 exampleEnv_def exampleFs_def)
  from h0 h1 h2 hp f1 f2 d A0 An A2 show ?thesis by blast
qed

section \<open>The pattern builders on blank search text\<close>

lemma allMatches_Never: "allMatches Never s k = []"
  by (simp add: allMatches.simps[of Never s k] regexExec_def)

lemma countRegexMatches_Never: "countRegexMatches content Never = 0"
  by (simp add: countRegexMatches_def allMatches_Never)

lemma dropWhile_all: "list_all P xs \<Longrightarrow> dropWhile P xs = []"
  by (induction xs) simp_all

lemma takeWhile_all: "list_all P xs \<Longrightarrow> takeWhile P xs = xs"
  by (induction xs) simp_all

lemma splitWs_all_space:
  "list_all is_space s \<Longrightarrow> splitWs [] s = (if s = [] then [[]] else [[], []])"
  by (cases s) (simp_all add: dropWhile_all)

lemma matchRuns_all_space:
  "list_all is_space s \<Longrightarrow> s \<noteq> [] \<Longrightarrow> matchRuns s = [s]"
  by (cases s) (simp_all add: dropWhile_all takeWhile_all)

text \<open>
  Claim C7, as amended. For every search text made of white space only (the empty text
  included) the token builder gives a pattern that matches nothing in any content. The
  whitespace-tolerant builder gives such a pattern for the empty text; for a non-empty
  text of white space it gives the pattern of one white space run (\<open>\s+\<close> when the
  text contains a line feed, \<open>[\t ]+\<close> otherwise).
\<close>

theorem blank_search_patterns:
  assumes "list_all is_space s"
  shows "countRegexMatches content (buildTokenRegex s) = 0
       \<and> (if s = []
          then countRegexMatches content (buildWhitespaceTolerantRegex s) = 0
          else buildWhitespaceTolerantRegex s = Pattern [if LF \<in> set s then WsAny else WsHoriz])"
proof -
  from assms have "buildTokenRegex s = Never"
    by (simp add: buildTokenRegex_def splitWs_all_space)
  then have tok: "countRegexMatches content (buildTokenRegex s) = 0"
    by (simp add: countRegexMatches_Never)
  show ?thesis
  proof (cases "s = []")
    case True
    then show ?thesis using tok
      by (simp add: buildWhitespaceTolerantRegex_def countRegexMatches_Never)
  next
    case False
    with assms have "buildWhitespaceTolerantRegex s = Pattern [if LF \<in> set s then WsAny else WsHoriz]"
      by (simp add: buildWhitespaceTolerantRegex_def matchRuns_all_space segOfPart_def includes_single)
    with False tok show ?thesis by simp
  qed
qed

theorem blank_search_patterns_witness:
  "list_all is_space [] \<and> list_all is_space [SPC, LF]
   \<and> countRegexMatches ''a b'' (buildTokenRegex []) = 0
   \<and> countRegexMatches ''a b'' (buildWhitespaceTolerantRegex []) = 0
   \<and> countRegexMatches ''a b'' (buildTokenRegex [SPC, LF]) = 0
   \<and> buildWhitespaceTolerantRegex [SPC, LF] = Pattern [WsAny]"
proof -
  have h1: "list_all is_space []" by simp
  have h2: "list_all is_space [SPC, LF]" by (simp add: is_space_def)
  from blank_search_patterns[OF h1, of "''a b''"] blank_search_patterns[OF h2, of "''a b''"] h2
  show ?thesis by simp
qed

text \<open>
  Claim C7 as stated fails for the whitespace-tolerant builder: for the search text of two
  spaces it gives \<open>[\t ]+\<close>, which matches the space in \<open>a b\<close>.
\<close>

theorem blank_search_patterns_counterexample:
  "list_all is_space ''  ''
   \<and> countRegexMatches ''a b'' (buildWhitespaceTolerantRegex ''  '') = 1"
  by code_simp

section \<open>The windowed locator\<close>

text \<open>Lines and offsets: joining the lines of a content gives the content back, the
  lines hold no line feed, and the line of an offset is one more than the number of line
  feeds before it.\<close>

lemma splitOn_nonempty: "splitOn d cur s \<noteq> []"
  by (induction s arbitrary: cur) simp_all

lemma joinLines_Cons: "joinLines (x # ys) = (if ys = [] then x else x @ LF # joinLines ys)"
  by (cases ys) simp_all

lemma joinLines_splitOn: "joinLines (splitOn LF cur s) = cur @ s"
  by (induction s arbitrary: cur) (simp_all add: joinLines_Cons splitOn_nonempty)

lemma joinLines_splitLines: "joinLines (splitLines s) = s"
  by (simp add: splitLines_def joinLines_splitOn)

lemma length_splitOn: "length (splitOn d cur s) = Suc (count_list s d)"
  by (induction s arbitrary: cur) simp_all

lemma splitOn_lf_free:
  "LF \<notin> set cur \<Longrightarrow> l \<in> set (splitOn LF cur s) \<Longrightarrow> LF \<notin> set l"
proof (induction s arbitrary: cur)
  case Nil
  then show ?case by simp
next
  case (Cons c s)
  show ?case
  proof (cases "c = LF")
    case True
    with Cons.prems have "l = cur \<or> l \<in> set (splitOn LF [] s)" by simp
    then show ?thesis
    proof
      assume "l = cur"
      with Cons.prems show ?thesis by simp
    next
      assume "l \<in> set (splitOn LF [] s)"
      with Cons.IH[of "[]"] show ?thesis by simp
    qed
  next
    case False
    with Cons.prems have "l \<in> set (splitOn LF (cur @ [c]) s)" by simp
    moreover from False Cons.prems have "LF \<notin> set (cur @ [c])" by simp
    ultimately show ?thesis using Cons.IH[of "cur @ [c]"] by blast
  qed
qed

lemma splitLines_lf_free: "l \<in> set (splitLines s) \<Longrightarrow> LF \<notin> set l"
  using splitOn_lf_free[of "[]" l s] by (simp add: splitLines_def)

lemma joinLines_append:
  "xs \<noteq> [] \<Longrightarrow> ys \<noteq> [] \<Longrightarrow> joinLines (xs @ ys) = joinLines xs @ LF # joinLines ys"
  by (induction xs) (simp_all add: joinLines_Cons)

lemma count_joinLines:
  "(\<And>l. l \<in> set ls \<Longrightarrow> LF \<notin> set l) \<Longrightarrow> count_list (joinLines ls) LF = length ls - 1"
proof (induction ls)
  case Nil
  show ?case by simp
next
  case (Cons x ls)
  have x: "count_list x LF = 0" using Cons.prems[of x] by (simp add: count_list_0_iff)
  show ?case
  proof (cases "ls = []")
    case True
    with x show ?thesis by simp
  next
    case False
    have "count_list (joinLines ls) LF = length ls - 1" using Cons by simp
    with False x show ?thesis by (cases ls) (simp_all add: joinLines_Cons)
  qed
qed

lemma lineOfOffset_count: "lineOfOffset contentLF g = Suc (count_list (take g contentLF) LF)"
  by (simp add: lineOfOffset_def splitLines_def length_splitOn substring_def Let_def min_def)

lemma count_list_take_le: "count_list (take l xs) x \<le> count_list xs x"
proof -
  have "count_list xs x = count_list (take l xs) x + count_list (drop l xs) x"
    by (metis append_take_drop_id count_list_append)
  then show ?thesis by simp
qed

lemma findNearHint_sound:
  assumes ne: "searchLF \<noteq> []" and pos: "0 < n"
    and found: "findNearHint contentLF searchLF n = Some (g, ln)"
  shows "prefix searchLF (drop g contentLF)
       \<and> ln = Suc (count_list (take g contentLF) LF)
       \<and> int n - 30 \<le> int ln \<and> int ln \<le> int n + 29"
proof -
  define lines where "lines = splitLines contentLF"
  define w where "w = nat (max 0 (int n - 1 - 30))"
  define e where "e = nat (min (int (length lines)) (int n - 1 + 30))"
  define W where "W = joinLines (slice lines w e)"
  define P where "P = length (joinLines (slice lines 0 w)) + (if w > 0 then 1 else 0)"
  from found obtain l where l: "indexOf W searchLF = Some l" and g: "g = P + l"
    and ln: "ln = lineOfOffset contentLF g"
    by (auto simp: findNearHint_def Let_def lines_def w_def e_def W_def P_def
          split: option.splits)
  from indexOf_bounds[OF l] have pl: "prefix searchLF (drop l W)" and lb: "l + length searchLF \<le> length W"
    by simp_all
  from lb ne have Wne: "W \<noteq> []" and lW: "l \<le> length W" by auto
  define D where "D = drop w lines"
  define k where "k = e - w"
  have Wk: "W = joinLines (take k D)" by (simp add: W_def slice_def D_def k_def)
  have tk: "take k D \<noteq> []"
  proof
    assume "take k D = []"
    with Wk have "W = []" by simp
    with Wne show False by simp
  qed
  then have Dne: "D \<noteq> []" and kpos: "0 < k" by auto
  from Dne have wlt: "w < length lines" by (simp add: D_def)
  define R where "R = joinLines D"
  have content: "contentLF = joinLines lines" by (simp add: lines_def joinLines_splitLines)
  have free: "\<And>x. x \<in> set lines \<Longrightarrow> LF \<notin> set x"
    unfolding lines_def by (rule splitLines_lf_free)
  have A: "\<exists>A. contentLF = A @ R \<and> length A = P \<and> count_list A LF = w"
  proof (cases "w = 0")
    case True
    then show ?thesis by (simp add: content R_def D_def P_def slice_def)
  next
    case False
    with wlt have t: "take w lines \<noteq> []" by auto
    have "lines = take w lines @ D" by (simp add: D_def)
    then have "joinLines lines = joinLines (take w lines) @ LF # R"
      using joinLines_append[OF t Dne] by (simp add: R_def)
    moreover have "count_list (joinLines (take w lines)) LF = w - 1"
      using count_joinLines[of "take w lines"] free wlt
      by (auto dest: in_set_takeD)
    ultimately show ?thesis using False
      by (intro exI[of _ "joinLines (take w lines) @ [LF]"])
         (simp add: content P_def slice_def)
  qed
  then obtain A where cA: "contentLF = A @ R" and lA: "length A = P" and nA: "count_list A LF = w"
    by blast
  have B: "\<exists>t. R = W @ t"
  proof (cases "drop k D = []")
    case True
    then have "take k D = D" by (metis append_Nil2 append_take_drop_id)
    then show ?thesis by (simp add: R_def Wk)
  next
    case False
    have "D = take k D @ drop k D" by simp
    then have "joinLines D = joinLines (take k D) @ LF # joinLines (drop k D)"
      using joinLines_append[OF tk False] by simp
    then show ?thesis by (simp add: R_def Wk)
  qed
  then obtain t where Rt: "R = W @ t" by blast
  have dg: "drop g contentLF = drop l W @ t"
    using lW by (simp add: cA g lA[symmetric] Rt)
  from pl have occ: "prefix searchLF (drop g contentLF)"
    by (auto simp: dg prefix_def)
  have tg: "take g contentLF = A @ take l W"
    using lW by (simp add: cA g lA[symmetric] Rt)
  have cW: "count_list W LF = length (take k D) - 1"
    unfolding Wk using free by (intro count_joinLines) (auto simp: D_def dest: in_set_takeD in_set_dropD)
  have "count_list (take l W) LF \<le> count_list W LF" by (rule count_list_take_le)
  with cW have c: "count_list (take l W) LF \<le> k - 1" by simp
  have lnv: "ln = Suc (w + count_list (take l W) LF)"
    by (simp add: ln lineOfOffset_count tg nA)
  have lo: "int n - 30 \<le> int ln" by (simp add: lnv w_def)
  from kpos have ew: "w < e" by (simp add: k_def)
  from c kpos lnv have "ln \<le> w + k" by simp
  with ew have "ln \<le> e" by (simp add: k_def)
  moreover have "int e \<le> int n + 29" using ew by (simp add: e_def)
  ultimately have hi: "int ln \<le> int n + 29" by simp
  from occ lo hi show ?thesis by (simp add: ln lineOfOffset_count)
qed

lemma matchRuns_nonempty: "s \<noteq> [] \<Longrightarrow> matchRuns s \<noteq> []"
  by (cases s) simp_all

text \<open>
  The order of the strategies. For a block with a non-empty search body the locator tries,
  in this order and until one succeeds: when the hint is a positive line number, the exact
  match inside the window of lines around the hint; the exact match anywhere in the
  content; the match of the whitespace-tolerant pattern of the search body anywhere in the
  content. A match of the first strategy is an occurrence of the search body in the whole
  content at the returned offset, its line is the 1-indexed line of that offset, and the
  line lies between hint - 30 and hint + 29. When the three fail the block is marked
  failed; the token pattern plays no part.
\<close>

lemma locator_strategy_order:
  fixes b :: DiffBlock and contentLF :: string
  defines "searchLF \<equiv> normalizeToLF (searchContent b)"
  defines "near \<equiv> (case startLine b of
                      Some n \<Rightarrow> if 0 < n then findNearHint contentLF searchLF n else None
                    | None \<Rightarrow> None)"
  assumes ne: "searchLF \<noteq> []"
  shows "findSearchContent contentLF searchLF (startLine b) =
      (case near of
         Some found \<Rightarrow> Some found
       | None \<Rightarrow>
           (case indexOf contentLF searchLF of
              Some idx \<Rightarrow> Some (idx, Suc (count_list (take idx contentLF) LF))
            | None \<Rightarrow>
                (case regexExec (buildWhitespaceTolerantRegex searchLF) contentLF of
                   Some (i, len) \<Rightarrow> Some (i, Suc (count_list (take i contentLF) LF))
                 | None \<Rightarrow> None)))
    \<and> (\<forall>g ln. near = Some (g, ln) \<longrightarrow>
          (\<exists>n. startLine b = Some n \<and> 0 < n
             \<and> prefix searchLF (drop g contentLF)
             \<and> ln = Suc (count_list (take g contentLF) LF)
             \<and> int n - 30 \<le> int ln \<and> int ln \<le> int n + 29))
    \<and> (near = None \<and> indexOf contentLF searchLF = None
         \<and> regexExec (buildWhitespaceTolerantRegex searchLF) contentLF = None
        \<longrightarrow> locateBlocks contentLF [b] =
              ([], [\<lparr>block = b, success = False,
                     error = Some (CouldNotFind (shownHint (startLine b)) (searchPreview searchLF)),
                     matchedAtLine = None\<rparr>]))"
proof -
  have pat: "Pattern (map segOfPart (matchRuns searchLF)) = buildWhitespaceTolerantRegex searchLF"
    using ne by (simp add: buildWhitespaceTolerantRegex_def)
  have ws: "findWhitespaceTolerant contentLF searchLF =
      (case regexExec (buildWhitespaceTolerantRegex searchLF) contentLF of
         Some (i, len) \<Rightarrow> Some (i, Suc (count_list (take i contentLF) LF))
       | None \<Rightarrow> None)"
    using matchRuns_nonempty[OF ne]
    by (simp add: findWhitespaceTolerant_def Let_def pat lineOfOffset_count
          cong: option.case_cong prod.case_cong)
  have order: "findSearchContent contentLF searchLF (startLine b) =
      (case near of
         Some found \<Rightarrow> Some found
       | None \<Rightarrow>
           (case indexOf contentLF searchLF of
              Some idx \<Rightarrow> Some (idx, Suc (count_list (take idx contentLF) LF))
            | None \<Rightarrow>
                (case regexExec (buildWhitespaceTolerantRegex searchLF) contentLF of
                   Some (i, len) \<Rightarrow> Some (i, Suc (count_list (take i contentLF) LF))
                 | None \<Rightarrow> None)))"
    by (simp add: findSearchContent_def near_def ws lineOfOffset_count
          cong: option.case_cong prod.case_cong)
  have sound: "\<forall>g ln. near = Some (g, ln) \<longrightarrow>
          (\<exists>n. startLine b = Some n \<and> 0 < n
             \<and> prefix searchLF (drop g contentLF)
             \<and> ln = Suc (count_list (take g contentLF) LF)
             \<and> int n - 30 \<le> int ln \<and> int ln \<le> int n + 29)"
  proof (intro allI impI)
    fix g ln
    assume nr: "near = Some (g, ln)"
    then obtain n where n: "startLine b = Some n" "0 < n"
      and f: "findNearHint contentLF searchLF n = Some (g, ln)"
      by (auto simp: near_def split: option.splits if_splits)
    from findNearHint_sound[OF ne n(2) f] n
    show "\<exists>n. startLine b = Some n \<and> 0 < n
             \<and> prefix searchLF (drop g contentLF)
             \<and> ln = Suc (count_list (take g contentLF) LF)
             \<and> int n - 30 \<le> int ln \<and> int ln \<le> int n + 29"
      by simp
  qed
  have failed: "near = None \<and> indexOf contentLF searchLF = None
         \<and> regexExec (buildWhitespaceTolerantRegex searchLF) contentLF = None
        \<longrightarrow> locateBlocks contentLF [b] =
              ([], [\<lparr>block = b, success = False,
                     error = Some (CouldNotFind (shownHint (startLine b)) (searchPreview searchLF)),
                     matchedAtLine = None\<rparr>])"
  proof
    assume a: "near = None \<and> indexOf contentLF searchLF = None
         \<and> regexExec (buildWhitespaceTolerantRegex searchLF) contentLF = None"
    with order have "findSearchContent contentLF searchLF (startLine b) = None" by simp
    with ne show "locateBlocks contentLF [b] =
              ([], [\<lparr>block = b, success = False,
                     error = Some (CouldNotFind (shownHint (startLine b)) (searchPreview searchLF)),
                     matchedAtLine = None\<rparr>])"
      by (simp add: searchLF_def Let_def)
  qed
  from order sound failed show ?thesis by blast
qed

lemma locator_strategy_order_examples:
  "normalizeToLF ''a b'' \<noteq> []
   \<and> findSearchContent [CHR ''a'', LF, CHR ''b''] ''a b'' None = None
   \<and> countRegexMatches [CHR ''a'', LF, CHR ''b''] (buildTokenRegex ''a b'') = 1
   \<and> locateBlocks [CHR ''a'', LF, CHR ''b'']
        [\<lparr>startLine = None, searchContent = ''a b'', replaceContent = ''c'', rawBlock = []\<rparr>]
       = ([], [\<lparr>block = \<lparr>startLine = None, searchContent = ''a b'', replaceContent = ''c'',
                          rawBlock = []\<rparr>,
                success = False, error = Some (CouldNotFind None ''a b''), matchedAtLine = None\<rparr>])
   \<and> findSearchContent (CHR ''a'' # replicate 40 LF @ ''a'') ''a'' (Some 41) = Some (41, 41)
   \<and> findSearchContent (CHR ''a'' # replicate 40 LF @ ''a'') ''a'' None = Some (0, 1)
   \<and> findSearchContent [CHR ''a'', SPC, SPC, CHR ''b''] ''a b'' (Some 1) = Some (0, 1)"
proof -
  let ?b = "\<lparr>startLine = None, searchContent = ''a b'', replaceContent = ''c'', rawBlock = []\<rparr>"
  let ?h = "\<lparr>startLine = Some 41, searchContent = ''a'', replaceContent = ''c'', rawBlock = []\<rparr>"
  let ?n = "\<lparr>startLine = None, searchContent = ''a'', replaceContent = ''c'', rawBlock = []\<rparr>"
  let ?w = "\<lparr>startLine = Some 1, searchContent = ''a b'', replaceContent = ''c'', rawBlock = []\<rparr>"
  have nb: "normalizeToLF (searchContent ?b) \<noteq> []" and nh: "normalizeToLF (searchContent ?h) \<noteq> []"
    and nn: "normalizeToLF (searchContent ?n) \<noteq> []" and nw: "normalizeToLF (searchContent ?w) \<noteq> []"
    by simp_all
  have i1: "indexOf [CHR ''a'', LF, CHR ''b''] ''a b'' = None" by simp
  have r1: "regexExec (buildWhitespaceTolerantRegex ''a b'') [CHR ''a'', LF, CHR ''b''] = None"
    by code_simp
  have t1: "countRegexMatches [CHR ''a'', LF, CHR ''b''] (buildTokenRegex ''a b'') = 1"
    by code_simp
  have f3: "findNearHint (CHR ''a'' # replicate 40 LF @ ''a'') ''a'' 41 = Some (41, 41)"
    by code_simp
  have i3: "indexOf (CHR ''a'' # replicate 40 LF @ ''a'') ''a'' = Some 0" by simp
  have f4: "findNearHint [CHR ''a'', SPC, SPC, CHR ''b''] ''a b'' (Suc 0) = None" by code_simp
  have i4: "indexOf [CHR ''a'', SPC, SPC, CHR ''b''] ''a b'' = None" by simp
  have r4: "regexExec (buildWhitespaceTolerantRegex ''a b'') [CHR ''a'', SPC, SPC, CHR ''b''] = Some (0, 4)"
    by code_simp
  note B = locator_strategy_order[of ?b "[CHR ''a'', LF, CHR ''b'']", OF nb]
  have A1: "findSearchContent [CHR ''a'', LF, CHR ''b''] ''a b'' None = None"
    using B[THEN conjunct1] by (simp add: i1 r1)
  have A2: "locateBlocks [CHR ''a'', LF, CHR ''b''] [?b]
       = ([], [\<lparr>block = ?b, success = False, error = Some (CouldNotFind None ''a b''),
                matchedAtLine = None\<rparr>])"
    using B[THEN conjunct2, THEN conjunct2] by (simp add: i1 r1 shownHint_def searchPreview_def)
  have A3: "findSearchContent (CHR ''a'' # replicate 40 LF @ ''a'') ''a'' (Some 41) = Some (41, 41)"
    using locator_strategy_order[of ?h "CHR ''a'' # replicate 40 LF @ ''a''", OF nh, THEN conjunct1]
    by (simp add: f3)
  have A4: "findSearchContent (CHR ''a'' # replicate 40 LF @ ''a'') ''a'' None = Some (0, 1)"
    using locator_strategy_order[of ?n "CHR ''a'' # replicate 40 LF @ ''a''", OF nn, THEN conjunct1]
    by (simp add: i3)
  have A5: "findSearchContent [CHR ''a'', SPC, SPC, CHR ''b''] ''a b'' (Some 1) = Some (0, 1)"
    using locator_strategy_order[of ?w "[CHR ''a'', SPC, SPC, CHR ''b'']", OF nw, THEN conjunct1]
    by (simp add: f4 i4 r4)
  from A1 A2 A3 A4 A5 t1 show ?thesis by simp
qed

text \<open>
  Claim C5 says that the first strategy searches the window of 30 lines on each side of
  the hint. The window taken is one line short below the hint: it runs from line
  hint - 30 to line hint + 29. In the file of 71 lines whose first and last lines are
  \<open>a\<close>, the other lines empty, the block parsed with the hint 41 and the search body
  \<open>a\<close> has an exact match on line 71, 30 lines below the hint; the first strategy does
  not find it, the second strategy finds line 1, and the replacement is spliced there.
  With the hint 42 the match on line 71 is found.
\<close>

theorem hinted_window_stops_one_line_short:
  "length (splitLines exampleLongFile) = 71
   \<and> prefix ''a'' (drop 71 exampleLongFile) \<and> lineOfOffset exampleLongFile 71 = 71
   \<and> (case parseDiffBlocks exampleHintedDiff of
         Inl err \<Rightarrow> False
       | Inr blocks \<Rightarrow>
           map startLine blocks = [Some 41] \<and> map searchContent blocks = [''a'']
           \<and> map matchedAtLine (snd (applyAllBlocks exampleLongFile blocks)) = [Some 1]
           \<and> fst (applyAllBlocks exampleLongFile blocks) = CHR ''X'' # replicate 70 LF @ ''a'')
   \<and> findNearHint exampleLongFile ''a'' 41 = None
   \<and> findSearchContent exampleLongFile ''a'' (Some 41) = Some (0, 1)
   \<and> findSearchContent exampleLongFile ''a'' (Some 42) = Some (71, 71)"
  by code_simp

section \<open>The patch applier\<close>

text \<open>Splicing in a processing order in which every splice lies strictly before the
  splices already processed replaces every range of the original content by its
  replacement.\<close>

lemma replaceRanges_snoc:
  "\<lbrakk>\<forall>x \<in> set xs. m_index x + m_matchLength x \<le> m_index m; pos \<le> m_index m\<rbrakk> \<Longrightarrow>
   replaceRanges d (xs @ [m]) pos =
     replaceRanges (take (m_index m) d) xs pos @ m_replaceLF m
       @ drop (m_index m + m_matchLength m) d"
proof (induction xs arbitrary: pos)
  case Nil
  then show ?case by (simp add: drop_take)
next
  case (Cons x xs)
  from Cons.prems have xi: "m_index x + m_matchLength x \<le> m_index m" by simp
  then have le: "m_index x \<le> m_index m" by simp
  have seg: "take (m_index x - pos) (drop pos (take (m_index m) d))
             = take (m_index x - pos) (drop pos d)"
    using le by (simp add: drop_take min_def)
  from Cons.IH[of "m_index x + m_matchLength x"] Cons.prems xi
  show ?case by (simp add: seg)
qed

lemma spliceOne_eq:
  "spliceOne result m =
     take (m_index m) result @ m_replaceLF m @ drop (m_index m + m_matchLength m) result"
  by (simp add: spliceOne_def substring_def Let_def min_def)

lemma foldl_splice_bounded:
  "\<lbrakk>splicesStrictlyBefore ds; \<forall>m \<in> set ds. m_index m + m_matchLength m \<le> hi; hi \<le> length c\<rbrakk> \<Longrightarrow>
   foldl spliceOne (take hi c @ T) ds = replaceRanges (take hi c) (rev ds) 0 @ T"
proof (induction ds arbitrary: hi T)
  case Nil
  show ?case by simp
next
  case (Cons m ms)
  let ?i = "m_index m" and ?l = "m_matchLength m"
  from Cons.prems have b: "?i + ?l \<le> hi" and hc: "hi \<le> length c" by simp_all
  from Cons.prems have sep: "\<forall>x \<in> set ms. m_index x + m_matchLength x \<le> ?i"
    and rest: "splicesStrictlyBefore ms"
    by (simp_all add: splicesStrictlyBefore_def)
  have one: "spliceOne (take hi c @ T) m
             = take ?i c @ (m_replaceLF m @ drop (?i + ?l) (take hi c) @ T)"
    using b hc by (simp add: spliceOne_eq min_def)
  have ic: "?i \<le> length c" using b hc by simp
  have "foldl spliceOne (take hi c @ T) (m # ms)
        = foldl spliceOne (take ?i c @ (m_replaceLF m @ drop (?i + ?l) (take hi c) @ T)) ms"
    by (simp add: one)
  also have "\<dots> = replaceRanges (take ?i c) (rev ms) 0
                  @ (m_replaceLF m @ drop (?i + ?l) (take hi c) @ T)"
    by (rule Cons.IH[OF rest sep ic])
  also have "\<dots> = replaceRanges (take hi c) (rev (m # ms)) 0 @ T"
  proof -
    have "replaceRanges (take hi c) (rev ms @ [m]) 0
          = replaceRanges (take ?i (take hi c)) (rev ms) 0 @ m_replaceLF m
              @ drop (?i + ?l) (take hi c)"
      using sep by (intro replaceRanges_snoc) simp_all
    moreover have "take ?i (take hi c) = take ?i c" using b by (simp add: min_def)
    ultimately show ?thesis by simp
  qed
  finally show ?case .
qed

lemma foldl_splice_simultaneous:
  assumes sep: "splicesStrictlyBefore ds" and idx: "\<forall>m \<in> set ds. m_index m \<le> length c"
  shows "foldl spliceOne c ds = replaceRanges c (rev ds) 0"
proof (cases ds)
  case Nil
  then show ?thesis by simp
next
  case (Cons m ms)
  let ?i = "m_index m" and ?l = "m_matchLength m"
  from sep Cons have s: "\<forall>x \<in> set ms. m_index x + m_matchLength x \<le> ?i"
    and rest: "splicesStrictlyBefore ms"
    by (simp_all add: splicesStrictlyBefore_def)
  from idx Cons have ic: "?i \<le> length c" by simp
  have "foldl spliceOne c ds
        = foldl spliceOne (take ?i c @ (m_replaceLF m @ drop (?i + ?l) c)) ms"
    by (simp add: Cons spliceOne_eq)
  also have "\<dots> = replaceRanges (take ?i c) (rev ms) 0 @ (m_replaceLF m @ drop (?i + ?l) c)"
    by (rule foldl_splice_bounded[OF rest s ic])
  also have "\<dots> = replaceRanges c (rev ms @ [m]) 0"
    using s by (simp add: replaceRanges_snoc)
  finally show ?thesis by (simp add: Cons)
qed

lemma sorted_wrt_insort_key_sym:
  assumes "\<And>a b. R a b \<Longrightarrow> R b a"
  shows "sorted_wrt R (insort_key f x xs) \<longleftrightarrow> (\<forall>y \<in> set xs. R x y) \<and> sorted_wrt R xs"
  using assms by (induction xs) (auto simp: set_insort_key)

lemma sorted_wrt_sort_key_sym:
  assumes "\<And>a b. R a b \<Longrightarrow> R b a"
  shows "sorted_wrt R (sort_key f xs) \<longleftrightarrow> sorted_wrt R xs"
proof (induction xs)
  case Nil
  show ?case by simp
next
  case (Cons x xs)
  have "sort_key f (x # xs) = insort_key f x (sort_key f xs)" by simp
  then show ?case
    using sorted_wrt_insort_key_sym[of R f x "sort_key f xs", OF assms] Cons by simp
qed

lemma sortDescending_sorted:
  "sorted_wrt (\<lambda>a b. m_index b \<le> m_index a) (sortDescending ms)"
proof -
  have "sorted (map (\<lambda>m. - int (m_index m)) (sort_key (\<lambda>m. - int (m_index m)) ms))"
    by (rule sorted_sort_key)
  then show ?thesis
    by (simp add: sortDescending_def sorted_map)
qed

lemma sortDescending_set: "set (sortDescending ms) = set ms"
  by (simp add: sortDescending_def)

lemma sortDescending_length: "length (sortDescending ms) = length ms"
  by (simp add: sortDescending_def)

lemma sorted_wrt_conj:
  "sorted_wrt (\<lambda>a b. P a b \<and> Q a b) xs \<longleftrightarrow> sorted_wrt P xs \<and> sorted_wrt Q xs"
  by (induction xs) auto

lemma disjoint_descending_strictly_before:
  assumes dis: "sorted_wrt rangesDisjoint ms"
    and len: "\<forall>m \<in> set ms. 0 < m_matchLength m"
  shows "splicesStrictlyBefore (sortDescending ms)"
proof -
  have sym: "\<And>a b. rangesDisjoint a b \<Longrightarrow> rangesDisjoint b a"
    by (auto simp: rangesDisjoint_def)
  from dis have d: "sorted_wrt rangesDisjoint (sortDescending ms)"
    unfolding sortDescending_def by (simp add: sorted_wrt_sort_key_sym[OF sym])
  from d sortDescending_sorted[of ms]
  have "sorted_wrt (\<lambda>a b. rangesDisjoint a b \<and> m_index b \<le> m_index a) (sortDescending ms)"
    by (simp add: sorted_wrt_conj)
  then show ?thesis
    unfolding splicesStrictlyBefore_def
  proof (rule sorted_wrt_mono_rel[rotated])
    fix a b
    assume a: "a \<in> set (sortDescending ms)" and b: "b \<in> set (sortDescending ms)"
      and r: "rangesDisjoint a b \<and> m_index b \<le> m_index a"
    from a len have "0 < m_matchLength a" by (simp add: sortDescending_set)
    with r show "m_index b + m_matchLength b \<le> m_index a"
      by (auto simp: rangesDisjoint_def)
  qed
qed

text \<open>The blocks are located one by one in the content given to \<open>applyAllBlocks\<close>, and
  the results it returns are the outcomes of the blocks, in block order.\<close>

lemma locateBlocks_fst: "fst (locateBlocks c bs) = List.map_filter (matchOf c) bs"
  by (induction bs)
     (auto simp: List.map_filter_simps matchOf_def Let_def split: option.splits)

lemma locateBlocks_snd: "snd (locateBlocks c bs) = List.map_filter (failOf c) bs"
  by (induction bs)
     (auto simp: List.map_filter_simps failOf_def locates_def blockOutcome_def Let_def
           split: option.splits)

lemma matchOf_Some:
  "matchOf c b = Some m \<Longrightarrow>
     locates c b \<and> m_block m = b \<and> m_searchLF m = normalizeToLF (searchContent b)
     \<and> m_searchLF m \<noteq> [] \<and> m_matchLength m = length (m_searchLF m)
     \<and> m_replaceLF m = normalizeToLF (replaceContent b)
     \<and> findSearchContent c (m_searchLF m) (startLine b) = Some (m_index m, m_matchedAtLine m)
     \<and> successOf m = blockOutcome c b"
  by (auto simp: matchOf_def locates_def successOf_def blockOutcome_def
           split: if_splits option.splits)

lemma matchOf_None: "matchOf c b = None \<longleftrightarrow> \<not> locates c b"
  by (auto simp: matchOf_def locates_def split: option.splits)

lemma in_map_filter: "x \<in> set (List.map_filter f xs) \<longleftrightarrow> (\<exists>y \<in> set xs. f y = Some x)"
  by (induction xs) (auto simp: List.map_filter_simps split: option.splits)

lemma find_SomeD: "find P xs = Some x \<Longrightarrow> x \<in> set xs \<and> P x"
  by (induction xs) (auto split: if_splits)

lemma findSearchContent_index_bound:
  assumes ne: "s \<noteq> []" and f: "findSearchContent c s h = Some (g, ln)"
  shows "g \<le> length c"
proof -
  let ?near = "case h of Some n \<Rightarrow> if 0 < n then findNearHint c s n else None | None \<Rightarrow> None"
  show ?thesis
  proof (cases ?near)
    case (Some r)
    with f have r: "r = (g, ln)" by (simp add: findSearchContent_def)
    from Some obtain n where n: "0 < n" "findNearHint c s n = Some r"
      by (auto split: option.splits if_splits)
    from findNearHint_sound[OF ne n(1), of c g ln] n(2) r
    have "prefix s (drop g c)" by simp
    with ne have "drop g c \<noteq> []" by auto
    then show ?thesis by simp
  next
    case None
    show ?thesis
    proof (cases "indexOf c s")
      case (Some i)
      with None f have "g = i" by (simp add: findSearchContent_def)
      with indexOf_bounds[OF Some] show ?thesis by simp
    next
      case N2: None
      with None f have "findWhitespaceTolerant c s = Some (g, ln)"
        by (simp add: findSearchContent_def)
      then obtain n where "execSegs (map segOfPart (matchRuns s)) c = Some (g, n)"
        by (auto simp: findWhitespaceTolerant_def Let_def regexExec_def
                 split: if_splits option.splits)
      then show ?thesis by (rule execSegs_bound)
    qed
  qed
qed

lemma located_facts:
  assumes "m \<in> set (fst (locateBlocks c bs))"
  shows "m_block m \<in> set bs \<and> matchOf c (m_block m) = Some m
       \<and> 0 < m_matchLength m \<and> m_index m \<le> length c"
proof -
  from assms obtain b where b: "b \<in> set bs" "matchOf c b = Some m"
    by (auto simp: locateBlocks_fst in_map_filter)
  note M = matchOf_Some[OF b(2)]
  from M have mb: "m_block m = b" by blast
  from M have ne: "m_searchLF m \<noteq> []" by blast
  from M have ln: "m_matchLength m = length (m_searchLF m)" by blast
  from M have f: "findSearchContent c (m_searchLF m) (startLine b) = Some (m_index m, m_matchedAtLine m)"
    by blast
  from findSearchContent_index_bound[OF ne f] have "m_index m \<le> length c" .
  with b mb ne ln show ?thesis by simp
qed

lemma combineResults_outcomes:
  "combineResults bs (map successOf (sortDescending (fst (locateBlocks c bs))))
       (snd (locateBlocks c bs)) = map (blockOutcome c) bs"
proof -
  let ?succ = "map successOf (sortDescending (fst (locateBlocks c bs)))"
  let ?fail = "snd (locateBlocks c bs)"
  have one: "(case find (\<lambda>r. block r = b) ?succ of
                Some s \<Rightarrow> [s]
              | None \<Rightarrow> (case find (\<lambda>r. block r = b) ?fail of Some f \<Rightarrow> [f] | None \<Rightarrow> []))
             = [blockOutcome c b]" if b: "b \<in> set bs" for b
  proof (cases "matchOf c b")
    case (Some m)
    from Some b have "m \<in> set (fst (locateBlocks c bs))"
      by (auto simp: locateBlocks_fst in_map_filter)
    then have "successOf m \<in> set ?succ" by (simp add: sortDescending_set)
    moreover from matchOf_Some[OF Some] have "block (successOf m) = b"
      by (simp add: successOf_def)
    ultimately have "find (\<lambda>r. block r = b) ?succ \<noteq> None"
      by (auto simp: find_None_iff)
    then obtain r where r: "find (\<lambda>r. block r = b) ?succ = Some r" by auto
    from find_SomeD[OF this] have "r \<in> set ?succ" and rb: "block r = b" by simp_all
    then obtain m' where m': "m' \<in> set (fst (locateBlocks c bs))" "r = successOf m'"
      by (auto simp: sortDescending_set)
    from located_facts[OF m'(1)] have "matchOf c (m_block m') = Some m'" by simp
    moreover from rb m'(2) have "m_block m' = b" by (simp add: successOf_def)
    ultimately have "m' = m" using Some by simp
    with m'(2) matchOf_Some[OF Some] have "r = blockOutcome c b" by simp
    with r show ?thesis by simp
  next
    case None
    have nos: "find (\<lambda>r. block r = b) ?succ = None"
    proof (rule ccontr)
      assume "find (\<lambda>r. block r = b) ?succ \<noteq> None"
      then obtain r where "r \<in> set ?succ" "block r = b"
        by (auto simp: find_None_iff)
      then obtain m' where m': "m' \<in> set (fst (locateBlocks c bs))" "m_block m' = b"
        by (auto simp: sortDescending_set successOf_def)
      from located_facts[OF m'(1)] m'(2) None show False by simp
    qed
    from None have nl: "\<not> locates c b" by (simp add: matchOf_None)
    then have fb: "failOf c b = Some (blockOutcome c b)" by (simp add: failOf_def)
    have bb: "block (blockOutcome c b) = b"
      by (simp add: blockOutcome_def split: option.splits)
    from fb b have "blockOutcome c b \<in> set ?fail"
      by (auto simp: locateBlocks_snd in_map_filter)
    with bb have "find (\<lambda>r. block r = b) ?fail \<noteq> None"
      by (auto simp: find_None_iff)
    then obtain f where f: "find (\<lambda>r. block r = b) ?fail = Some f" by auto
    from find_SomeD[OF this] have "f \<in> set ?fail" and fbk: "block f = b" by simp_all
    then obtain b' where b': "failOf c b' = Some f"
      by (auto simp: locateBlocks_snd in_map_filter)
    then have "f = blockOutcome c b'" by (auto simp: failOf_def split: if_splits)
    moreover then have "block f = b'" by (simp add: blockOutcome_def split: option.splits)
    ultimately have "f = blockOutcome c b" using fbk by simp
    with nos f show ?thesis by simp
  qed
  have "combineResults bs ?succ ?fail = concat (map (\<lambda>b. [blockOutcome c b]) bs)"
    unfolding combineResults_def
    by (rule arg_cong[where f = concat], rule map_cong[OF refl]) (rule one)
  then show ?thesis by (simp add: concat_map_singleton)
qed

lemma success_blockOutcome: "success (blockOutcome c b) \<longleftrightarrow> locates c b"
  by (auto simp: blockOutcome_def locates_def split: option.splits)

lemma applyAllBlocks_eq:
  "applyAllBlocks c bs =
     (foldl spliceOne c (sortDescending (fst (locateBlocks c bs))), map (blockOutcome c) bs)"
  by (simp add: applyAllBlocks_def Let_def combineResults_outcomes)

lemma sortDescending_stable:
  "filter (\<lambda>m. m_index m = i) (sortDescending ms) = filter (\<lambda>m. m_index m = i) ms"
proof -
  have "filter (\<lambda>m. - int (m_index m) = - int i) (sort_key (\<lambda>m. - int (m_index m)) ms)
        = filter (\<lambda>m. - int (m_index m) = - int i) ms"
    by (rule sort_key_stable)
  then show ?thesis by (simp add: sortDescending_def)
qed

lemma located_exactly_iff:
  assumes "m \<in> set (fst (locateBlocks c bs))"
  shows "exactlyLocated c m = includes_str c (m_searchLF m)"
proof -
  from located_facts[OF assms] have mo: "matchOf c (m_block m) = Some m" by blast
  note M = matchOf_Some[OF mo]
  from M have ne: "m_searchLF m \<noteq> []" by blast
  from M have f: "findSearchContent c (m_searchLF m) (startLine (m_block m))
                   = Some (m_index m, m_matchedAtLine m)" by blast
  show ?thesis
  proof
    assume "exactlyLocated c m"
    then obtain v where "drop (m_index m) c = m_searchLF m @ v"
      by (auto simp: exactlyLocated_def prefix_def)
    then have "c = take (m_index m) c @ m_searchLF m @ v"
      by (metis append_take_drop_id)
    then show "includes_str c (m_searchLF m)" unfolding includes_str_iff by blast
  next
    assume "includes_str c (m_searchLF m)"
    then obtain j where j: "indexOf c (m_searchLF m) = Some j"
      by (auto simp: includes_str_def)
    let ?near = "case startLine (m_block m) of
                   Some n \<Rightarrow> if 0 < n then findNearHint c (m_searchLF m) n else None
                 | None \<Rightarrow> None"
    show "exactlyLocated c m"
    proof (cases ?near)
      case (Some r)
      with f have r: "r = (m_index m, m_matchedAtLine m)" by (simp add: findSearchContent_def)
      from Some obtain n where n: "0 < n" "findNearHint c (m_searchLF m) n = Some r"
        by (auto split: option.splits if_splits)
      from findNearHint_sound[OF ne n(1), of c "m_index m" "m_matchedAtLine m"] n(2) r
      show ?thesis by (simp add: exactlyLocated_def)
    next
      case None
      with f j have "m_index m = j" by (simp add: findSearchContent_def)
      with indexOf_bounds[OF j] show ?thesis by (simp add: exactlyLocated_def)
    qed
  qed
qed

text \<open>
  Claim C2, as amended. Every block is located on its own in the original content, before
  any splice, and the located blocks are spliced in descending order of their start
  offsets, blocks located at the same offset in block order. When every located block is
  located exactly (its search body stands at the located offset, which is the case of the
  blocks found by an exact match and of no other) and the matched ranges are pairwise
  disjoint, each splice lies strictly before the splices already processed, and the result
  is the original content with each matched range replaced by the replacement of its
  block.
\<close>

theorem splices_descending_on_original:
  fixes contentLF :: string and blocks :: "DiffBlock list"
  defines "located \<equiv> fst (locateBlocks contentLF blocks)"
  shows "located = List.map_filter (matchOf contentLF) blocks
     \<and> list_all (\<lambda>m. findSearchContent contentLF (m_searchLF m) (startLine (m_block m))
                        = Some (m_index m, m_matchedAtLine m)) located
     \<and> sorted_wrt (\<lambda>a b. m_index b \<le> m_index a) (sortDescending located)
     \<and> (\<forall>i. filter (\<lambda>m. m_index m = i) (sortDescending located)
               = filter (\<lambda>m. m_index m = i) located)
     \<and> set (sortDescending located) = set located
     \<and> length (sortDescending located) = length located
     \<and> fst (applyAllBlocks contentLF blocks) = foldl spliceOne contentLF (sortDescending located)
     \<and> list_all (\<lambda>m. exactlyLocated contentLF m = includes_str contentLF (m_searchLF m)) located
     \<and> (list_all (exactlyLocated contentLF) located \<and> sorted_wrt rangesDisjoint located
         \<longrightarrow> splicesStrictlyBefore (sortDescending located)
            \<and> fst (applyAllBlocks contentLF blocks)
                = replaceRanges contentLF (rev (sortDescending located)) 0)"
proof -
  have a: "located = List.map_filter (matchOf contentLF) blocks"
    by (simp add: located_def locateBlocks_fst)
  have b: "list_all (\<lambda>m. findSearchContent contentLF (m_searchLF m) (startLine (m_block m))
                        = Some (m_index m, m_matchedAtLine m)) located"
    unfolding list_all_iff
  proof
    fix m assume "m \<in> set located"
    then have "matchOf contentLF (m_block m) = Some m"
      using located_facts[of m contentLF blocks] by (simp add: located_def)
    from matchOf_Some[OF this]
    show "findSearchContent contentLF (m_searchLF m) (startLine (m_block m))
            = Some (m_index m, m_matchedAtLine m)" by blast
  qed
  have st: "\<forall>i. filter (\<lambda>m. m_index m = i) (sortDescending located)
               = filter (\<lambda>m. m_index m = i) located"
    by (simp add: sortDescending_stable)
  have ex: "list_all (\<lambda>m. exactlyLocated contentLF m = includes_str contentLF (m_searchLF m)) located"
    unfolding list_all_iff located_def using located_exactly_iff by blast
  have len: "\<forall>m \<in> set located. 0 < m_matchLength m"
    and idx: "\<forall>m \<in> set (sortDescending located). m_index m \<le> length contentLF"
    using located_facts[of _ contentLF blocks]
    by (auto simp: located_def sortDescending_set)
  have f: "fst (applyAllBlocks contentLF blocks) = foldl spliceOne contentLF (sortDescending located)"
    by (simp add: applyAllBlocks_eq located_def)
  have cond: "list_all (exactlyLocated contentLF) located \<and> sorted_wrt rangesDisjoint located
         \<longrightarrow> splicesStrictlyBefore (sortDescending located)
            \<and> fst (applyAllBlocks contentLF blocks)
                = replaceRanges contentLF (rev (sortDescending located)) 0"
  proof
    assume h: "list_all (exactlyLocated contentLF) located \<and> sorted_wrt rangesDisjoint located"
    then have dis: "sorted_wrt rangesDisjoint located" by simp
    have sep: "splicesStrictlyBefore (sortDescending located)"
      by (rule disjoint_descending_strictly_before[OF dis len])
    from sep f foldl_splice_simultaneous[OF sep idx]
    show "splicesStrictlyBefore (sortDescending located)
            \<and> fst (applyAllBlocks contentLF blocks)
                = replaceRanges contentLF (rev (sortDescending located)) 0"
      by simp
  qed
  from a b sortDescending_sorted[of located] st f ex cond
  show ?thesis by (simp add: sortDescending_set sortDescending_length)
qed

theorem splices_descending_on_original_witness:
  "list_all (exactlyLocated ''abc def'')
     (fst (locateBlocks ''abc def'' [exampleBlock ''abc'' ''Q'', exampleBlock ''def'' ''XYZW'']))
   \<and> sorted_wrt rangesDisjoint
     (fst (locateBlocks ''abc def'' [exampleBlock ''abc'' ''Q'', exampleBlock ''def'' ''XYZW'']))
   \<and> map m_index (sortDescending
        (fst (locateBlocks ''abc def'' [exampleBlock ''abc'' ''Q'', exampleBlock ''def'' ''XYZW''])))
      = [4, 0]
   \<and> fst (applyAllBlocks ''abc def'' [exampleBlock ''abc'' ''Q'', exampleBlock ''def'' ''XYZW''])
      = ''Q XYZW''
   \<and> map m_replaceLF (sortDescending
        (fst (locateBlocks ''abc'' [exampleBlock ''b'' ''XY'', exampleBlock ''b'' ''Z''])))
      = [''XY'', ''Z'']"
proof -
  let ?bs = "[exampleBlock ''abc'' ''Q'', exampleBlock ''def'' ''XYZW'']"
  have e: "list_all (exactlyLocated ''abc def'') (fst (locateBlocks ''abc def'' ?bs))"
    by code_simp
  have h: "sorted_wrt rangesDisjoint (fst (locateBlocks ''abc def'' ?bs))" by code_simp
  have s: "map m_index (sortDescending (fst (locateBlocks ''abc def'' ?bs))) = [4, 0]"
    by code_simp
  have r: "replaceRanges ''abc def'' (rev (sortDescending (fst (locateBlocks ''abc def'' ?bs)))) 0
           = ''Q XYZW''"
    by code_simp
  have t: "map m_replaceLF (sortDescending
        (fst (locateBlocks ''abc'' [exampleBlock ''b'' ''XY'', exampleBlock ''b'' ''Z''])))
      = [''XY'', ''Z'']"
    by code_simp
  from splices_descending_on_original[of "''abc def''" ?bs] e h
  have "fst (applyAllBlocks ''abc def'' ?bs)
        = replaceRanges ''abc def'' (rev (sortDescending (fst (locateBlocks ''abc def'' ?bs)))) 0"
    by blast
  with r have "fst (applyAllBlocks ''abc def'' ?bs) = ''Q XYZW''" by (simp only:)
  with e h s t show ?thesis by blast
qed

text \<open>
  Claim C2 as stated fails for blocks that locate at the same offset: two parsed blocks
  with the search body \<open>b\<close> both locate at offset 1 of \<open>abc\<close>; the second splice
  replaces the first character of what the first splice wrote, so the replacements
  \<open>XY\<close> and \<open>Z\<close> give \<open>aZYc\<close>.
\<close>

theorem splices_same_offset_counterexample:
  "(case parseDiffBlocks (joinLines
       [SEARCH_MARKER, ''b'', SEPARATOR_MARKER, ''XY'', REPLACE_MARKER,
        SEARCH_MARKER, ''b'', SEPARATOR_MARKER, ''Z'', REPLACE_MARKER]) of
      Inl err \<Rightarrow> False
    | Inr blocks \<Rightarrow>
        map m_index (sortDescending (fst (locateBlocks ''abc'' blocks))) = [1, 1]
        \<and> \<not> splicesStrictlyBefore (sortDescending (fst (locateBlocks ''abc'' blocks)))
        \<and> fst (applyAllBlocks ''abc'' blocks) = ''aZYc'')"
  by code_simp

text \<open>The length spliced out is the length of the search body, also for a block found
  by the whitespace-tolerant pattern, whose match may be longer or shorter: the search body
  \<open>a b\<close> matches the four characters \<open>a  b\<close>, and three are replaced.\<close>

lemma whitespace_match_splice_length:
  "findSearchContent ''a  b'' ''a b'' None = Some (0, 1)
   \<and> fst (applyAllBlocks ''a  b'' [exampleBlock ''a b'' ''X'']) = ''Xb''"
  by code_simp

section \<open>The multi-hunk tool: properties\<close>

lemma locates_matchOf: "locates c b \<longleftrightarrow> matchOf c b \<noteq> None"
  by (simp add: matchOf_None)

lemma map_filter_matchOf_located:
  "List.map_filter (matchOf c) (filter (locates c) bs) = List.map_filter (matchOf c) bs"
  by (induction bs) (auto simp: List.map_filter_simps locates_matchOf split: option.splits)

lemma success_comp: "success \<circ> blockOutcome c = locates c"
  by (rule ext) (simp add: success_blockOutcome)

lemma applyAllBlocks_located_subset:
  "fst (applyAllBlocks c (filter (locates c) bs)) = fst (applyAllBlocks c bs)"
  by (simp add: applyAllBlocks_eq locateBlocks_fst map_filter_matchOf_located)

lemma fail_count:
  "filter (locates c) bs = [] \<Longrightarrow>
   length (filter (\<lambda>r. \<not> success r) (map (blockOutcome c) bs)) = length bs"
  by (induction bs) (auto simp: success_blockOutcome split: if_splits)

text \<open>
  Claim C4, as amended. A call that reaches the application (not aborted, non-blank path
  and diff, an existing file, a diff that parses into at least one block) and in which no
  block locates fails with the per-block errors, and nothing is written. When at least one
  block locates, the new content is the content with the located blocks applied (the
  blocks that fail contribute nothing); if that content, in the original line ending,
  differs from the content of the file, the file is written with it and the response gives
  the number of located blocks, the number of blocks, and the outcome of every block in
  block order; if it equals the content of the file, nothing is written and the response
  is "no changes needed".
\<close>

theorem partial_success_policy:
  fixes env :: Env and args :: CodeApplyDiffInput and rawContent :: string
    and blocks :: "DiffBlock list"
  defines "p \<equiv> resolveToCwd env (diff_file_path args)"
    and "contentLF \<equiv> normalizeToLF rawContent"
  defines "newContentLF \<equiv> fst (applyAllBlocks contentLF blocks)"
    and "results \<equiv> map (blockOutcome contentLF) blocks"
    and "successCount \<equiv> length (filter (locates contentLF) blocks)"
  defines "finalContent \<equiv> restoreLineEnding newContentLF (detectLineEnding rawContent)"
  assumes na0: "\<not> aborted 0" and na1: "\<not> aborted 1" and na2: "\<not> aborted 2"
    and path: "trim (diff_file_path args) \<noteq> []"
    and given: "trim (diff args) \<noteq> []"
    and fileAt: "files fs p = Some rawContent"
    and parsed: "parseDiffBlocks (diff args) = Inr blocks"
    and some: "blocks \<noteq> []"
  shows "codeApplyDiffExecute env aborted args fs =
      (if successCount = 0
       then (Inl (AllBlocksFailed (diff_file_path args) (length blocks) results),
             fs\<lparr>trace := trace fs @ [Access p, ReadFile p]\<rparr>)
       else if finalContent = rawContent
       then (Inr (DiffNoChangesNeeded (diff_file_path args)),
             fs\<lparr>trace := trace fs @ [Access p, ReadFile p]\<rparr>)
       else (Inr (Applied successCount (length blocks) (diff_file_path args) results newContentLF),
             fs\<lparr>files := (files fs)(p \<mapsto> finalContent),
                trace := trace fs @ [Access p, ReadFile p, WriteFile p finalContent]\<rparr>))
     \<and> newContentLF = fst (applyAllBlocks contentLF (filter (locates contentLF) blocks))
     \<and> map block results = blocks
     \<and> map success results = map (locates contentLF) blocks"
proof -
  have ap: "applyAllBlocks contentLF blocks = (newContentLF, results)"
    by (simp add: applyAllBlocks_eq newContentLF_def results_def)
  have sc: "length (filter success results) = successCount"
    by (simp add: results_def successCount_def filter_map success_comp)
  have sc0: "filter success results = [] \<longleftrightarrow> successCount = 0"
    using sc by auto
  have fc: "successCount = 0 \<Longrightarrow> length (filter (\<lambda>r. \<not> success r) results) = length blocks"
    unfolding results_def successCount_def by (rule fail_count) simp
  have blank1: "diff_file_path args \<noteq> []" using path trim_blank by blast
  have blank2: "diff args \<noteq> []" using given trim_blank by blast
  have main: "codeApplyDiffExecute env aborted args fs =
      (if successCount = 0
       then (Inl (AllBlocksFailed (diff_file_path args) (length blocks) results),
             fs\<lparr>trace := trace fs @ [Access p, ReadFile p]\<rparr>)
       else if finalContent = rawContent
       then (Inr (DiffNoChangesNeeded (diff_file_path args)),
             fs\<lparr>trace := trace fs @ [Access p, ReadFile p]\<rparr>)
       else (Inr (Applied successCount (length blocks) (diff_file_path args) results newContentLF),
             fs\<lparr>files := (files fs)(p \<mapsto> finalContent),
                trace := trace fs @ [Access p, ReadFile p, WriteFile p finalContent]\<rparr>))"
    using na0 na1 na2 path given blank1 blank2 fileAt parsed some fc
    by (simp add: codeApplyDiffExecute_def Let_def access_def readFile_def writeFile_def
          p_def[symmetric] contentLF_def[symmetric] ap sc sc0 finalContent_def)
  have sub: "newContentLF = fst (applyAllBlocks contentLF (filter (locates contentLF) blocks))"
    by (simp add: newContentLF_def applyAllBlocks_located_subset)
  have bl: "map block results = blocks"
    by (simp add: results_def blockOutcome_def map_idI split: option.splits cong: map_cong)
  have su: "map success results = map (locates contentLF) blocks"
    by (simp add: results_def success_blockOutcome)
  from main sub bl su show ?thesis by simp
qed


theorem partial_success_policy_witness:
  "\<not> neverAborted 0 \<and> \<not> neverAborted 1 \<and> \<not> neverAborted 2 \<and> trim ''f'' \<noteq> []
   \<and> trim (exampleDiff [(''bbb'', ''BBB''), (''zzz'', ''ZZZ'')]) \<noteq> []
   \<and> trim (exampleDiff [(''zzz'', ''ZZZ'')]) \<noteq> []
   \<and> files (exampleFs [CHR ''a'', LF, CHR ''b'', CHR ''b'', CHR ''b'', LF]) ''f''
       = Some [CHR ''a'', LF, CHR ''b'', CHR ''b'', CHR ''b'', LF]
   \<and> parseDiffBlocks (exampleDiff [(''bbb'', ''BBB''), (''zzz'', ''ZZZ'')])
       = Inr [exampleBlock ''bbb'' ''BBB'', exampleBlock ''zzz'' ''ZZZ'']
   \<and> parseDiffBlocks (exampleDiff [(''zzz'', ''ZZZ'')]) = Inr [exampleBlock ''zzz'' ''ZZZ'']
   \<and> codeApplyDiffExecute exampleEnv neverAborted
         \<lparr>diff_file_path = ''f'', diff = exampleDiff [(''bbb'', ''BBB''), (''zzz'', ''ZZZ'')]\<rparr>
         (exampleFs [CHR ''a'', LF, CHR ''b'', CHR ''b'', CHR ''b'', LF])
       = (Inr (Applied 1 2 ''f''
            [\<lparr>block = exampleBlock ''bbb'' ''BBB'', success = True, error = None,
              matchedAtLine = Some 2\<rparr>,
             \<lparr>block = exampleBlock ''zzz'' ''ZZZ'', success = False,
              error = Some (CouldNotFind None ''zzz''), matchedAtLine = None\<rparr>]
            [CHR ''a'', LF, CHR ''B'', CHR ''B'', CHR ''B'', LF]),
          \<lparr>files = [''f'' \<mapsto> [CHR ''a'', LF, CHR ''B'', CHR ''B'', CHR ''B'', LF]],
           trace = [Access ''f'', ReadFile ''f'',
                    WriteFile ''f'' [CHR ''a'', LF, CHR ''B'', CHR ''B'', CHR ''B'', LF]]\<rparr>)
   \<and> codeApplyDiffExecute exampleEnv neverAborted
         \<lparr>diff_file_path = ''f'', diff = exampleDiff [(''zzz'', ''ZZZ'')]\<rparr>
         (exampleFs [CHR ''a'', LF, CHR ''b'', CHR ''b'', CHR ''b'', LF])
       = (Inl (AllBlocksFailed ''f'' 1
            [\<lparr>block = exampleBlock ''zzz'' ''ZZZ'', success = False,
              error = Some (CouldNotFind None ''zzz''), matchedAtLine = None\<rparr>]),
          \<lparr>files = [''f'' \<mapsto> [CHR ''a'', LF, CHR ''b'', CHR ''b'', CHR ''b'', LF]],
           trace = [Access ''f'', ReadFile ''f'']\<rparr>)"
proof -
  let ?c = "[CHR ''a'', LF, CHR ''b'', CHR ''b'', CHR ''b'', LF]"
  let ?d2 = "exampleDiff [(''bbb'', ''BBB''), (''zzz'', ''ZZZ'')]"
  let ?d1 = "exampleDiff [(''zzz'', ''ZZZ'')]"
  let ?b2 = "[exampleBlock ''bbb'' ''BBB'', exampleBlock ''zzz'' ''ZZZ'']"
  let ?b1 = "[exampleBlock ''zzz'' ''ZZZ'']"
  let ?a2 = "\<lparr>diff_file_path = ''f'', diff = ?d2\<rparr>"
  let ?a1 = "\<lparr>diff_file_path = ''f'', diff = ?d1\<rparr>"
  have h0: "\<not> neverAborted 0" and h1: "\<not> neverAborted 1" and h2: "\<not> neverAborted 2"
    by (simp_all add: neverAborted_def)
  have hp: "trim ''f'' \<noteq> []" by (simp add: trim_def is_space_def)
  have t2: "trim ?d2 \<noteq> []" by code_simp
  have t1: "trim ?d1 \<noteq> []" by code_simp
  have hf: "files (exampleFs ?c) ''f'' = Some ?c" by (simp add: exampleFs_def)
  have p2: "parseDiffBlocks ?d2 = Inr ?b2" by code_simp
  have p1: "parseDiffBlocks ?d1 = Inr ?b1" by code_simp
  have n: "normalizeToLF ?c = ?c" by simp
  have e: "detectLineEnding ?c = LFonly" by (simp add: detectLineEnding_def includes_str_def)
  have l1: "locates ?c (exampleBlock ''bbb'' ''BBB'')" by code_simp
  have l2: "\<not> locates ?c (exampleBlock ''zzz'' ''ZZZ'')" by code_simp
  have o1: "blockOutcome ?c (exampleBlock ''bbb'' ''BBB'') =
            \<lparr>block = exampleBlock ''bbb'' ''BBB'', success = True, error = None,
              matchedAtLine = Some 2\<rparr>"
    by code_simp
  have o2: "blockOutcome ?c (exampleBlock ''zzz'' ''ZZZ'') =
             \<lparr>block = exampleBlock ''zzz'' ''ZZZ'', success = False,
              error = Some (CouldNotFind None ''zzz''), matchedAtLine = None\<rparr>"
    by code_simp
  have r2: "fst (applyAllBlocks ?c ?b2) = [CHR ''a'', LF, CHR ''B'', CHR ''B'', CHR ''B'', LF]"
    by code_simp
  have A2: "codeApplyDiffExecute exampleEnv neverAborted ?a2 (exampleFs ?c)
       = (Inr (Applied 1 2 ''f''
            [\<lparr>block = exampleBlock ''bbb'' ''BBB'', success = True, error = None,
              matchedAtLine = Some 2\<rparr>,
             \<lparr>block = exampleBlock ''zzz'' ''ZZZ'', success = False,
              error = Some (CouldNotFind None ''zzz''), matchedAtLine = None\<rparr>]
            [CHR ''a'', LF, CHR ''B'', CHR ''B'', CHR ''B'', LF]),
          \<lparr>files = [''f'' \<mapsto> [CHR ''a'', LF, CHR ''B'', CHR ''B'', CHR ''B'', LF]],
           trace = [Access ''f'', ReadFile ''f'',
                    WriteFile ''f'' [CHR ''a'', LF, CHR ''B'', CHR ''B'', CHR ''B'', LF]]\<rparr>)"
    using partial_success_policy[where aborted = neverAborted and args = ?a2 and env = exampleEnv
        and fs = "exampleFs ?c" and rawContent = ?c and blocks = ?b2, THEN conjunct1]
      h0 h1 h2 hp t2 p2
    by (simp add: n e l1 l2 o1 o2 r2 exampleEnv_def exampleFs_def)
  have A1: "codeApplyDiffExecute exampleEnv neverAborted ?a1 (exampleFs ?c)
       = (Inl (AllBlocksFailed ''f'' 1
            [\<lparr>block = exampleBlock ''zzz'' ''ZZZ'', success = False,
              error = Some (CouldNotFind None ''zzz''), matchedAtLine = None\<rparr>]),
          \<lparr>files = [''f'' \<mapsto> ?c], trace = [Access ''f'', ReadFile ''f'']\<rparr>)"
    using partial_success_policy[where aborted = neverAborted and args = ?a1 and env = exampleEnv
        and fs = "exampleFs ?c" and rawContent = ?c and blocks = ?b1, THEN conjunct1]
      h0 h1 h2 hp t1 p1
    by (simp add: n e l2 o2 exampleEnv_def exampleFs_def)
  from h0 h1 h2 hp t2 t1 hf p2 p1 A2 A1 show ?thesis by blast
qed

text \<open>
  Claim C4 as stated fails when the located blocks leave the content as it is: the block
  that replaces \<open>b\<close> by \<open>b\<close> locates in \<open>abc\<close>, and the call neither writes the
  file nor reports a count.
\<close>

theorem partial_success_counterexample:
  "parseDiffBlocks (exampleDiff [(''b'', ''b'')]) = Inr [exampleBlock ''b'' ''b'']
   \<and> filter (locates ''abc'') [exampleBlock ''b'' ''b''] = [exampleBlock ''b'' ''b'']
   \<and> codeApplyDiffExecute exampleEnv neverAborted
         \<lparr>diff_file_path = ''f'', diff = exampleDiff [(''b'', ''b'')]\<rparr> (exampleFs ''abc'')
       = (Inr (DiffNoChangesNeeded ''f''),
          \<lparr>files = [''f'' \<mapsto> ''abc''], trace = [Access ''f'', ReadFile ''f'']\<rparr>)"
proof -
  have p: "parseDiffBlocks (exampleDiff [(''b'', ''b'')]) = Inr [exampleBlock ''b'' ''b'']"
    by code_simp
  have l: "filter (locates ''abc'') [exampleBlock ''b'' ''b''] = [exampleBlock ''b'' ''b'']"
    by code_simp
  have t: "trim (exampleDiff [(''b'', ''b'')]) \<noteq> []" by code_simp
  have a: "applyAllBlocks ''abc'' [exampleBlock ''b'' ''b'']
           = (''abc'', [\<lparr>block = exampleBlock ''b'' ''b'', success = True, error = None,
                         matchedAtLine = Some 1\<rparr>])"
    by code_simp
  have "codeApplyDiffExecute exampleEnv neverAborted
         \<lparr>diff_file_path = ''f'', diff = exampleDiff [(''b'', ''b'')]\<rparr> (exampleFs ''abc'')
       = (Inr (DiffNoChangesNeeded ''f''),
          \<lparr>files = [''f'' \<mapsto> ''abc''], trace = [Access ''f'', ReadFile ''f'']\<rparr>)"
    using t trim_blank[OF t]
    by (simp add: codeApplyDiffExecute_def Let_def access_def readFile_def p a
          exampleEnv_def exampleFs_def neverAborted_def trim_def is_space_def
          detectLineEnding_def includes_str_def)
  with p l show ?thesis by blast
qed


end
